theory Spec2Isabelle
  imports Main "HOL-Library.Word" "HOL-Library.Multiset"
begin

unbundle bit_operations_syntax

section \<open>Double-precision values and their comparisons\<close>

text \<open>
  The interpolation code only compares doubles (\<open><\<close>, \<open>></\<close>, \<open>==\<close>); all arithmetic on
  them happens inside the numerical library. A double is therefore modelled by its
  64-bit IEEE 754 binary64 pattern: bit 63 is the sign, the remaining 63 bits are the
  biased exponent followed by the fraction. A pattern is a NaN when its exponent is all
  ones and its fraction is not zero, that is, when its lower 63 bits exceed those of
  infinity. For two patterns that are not NaN, the numeric order is the order of their
  sign-and-magnitude integers; both zeros have magnitude 0. Every comparison with a NaN
  is false.
\<close>

type_synonym double = "64 word"

definition magnitude :: "double \<Rightarrow> 64 word" where
  "magnitude d = d AND 0x7FFFFFFFFFFFFFFF"

definition isnan :: "double \<Rightarrow> bool" where
  "isnan d = (0x7FF0000000000000 < magnitude d)"

definition signbit :: "double \<Rightarrow> bool" where
  "signbit d = bit d 63"

definition ordinal :: "double \<Rightarrow> int" where
  "ordinal d = (if signbit d then - uint (magnitude d) else uint (magnitude d))"

text \<open>\<open>a < b\<close>, \<open>a > b\<close> and \<open>a == b\<close> on doubles.\<close>

definition double_less :: "double \<Rightarrow> double \<Rightarrow> bool" where
  "double_less a b = (\<not> isnan a \<and> \<not> isnan b \<and> ordinal a < ordinal b)"

definition double_greater :: "double \<Rightarrow> double \<Rightarrow> bool" where
  "double_greater a b = double_less b a"

definition double_eq :: "double \<Rightarrow> double \<Rightarrow> bool" where
  "double_eq a b = (\<not> isnan a \<and> \<not> isnan b \<and> ordinal a = ordinal b)"


section \<open>External routines\<close>

text \<open>
  The interpolator calls four routines of the GNU Scientific Library and writes a double
  to a string stream. None of them is code of this repository, so they are parameters
  of the model. \<open>'sp\<close> is the state of a \<open>gsl_spline\<close> object and \<open>'acc\<close> the state of a
  \<open>gsl_interp_accel\<close> object. \<open>gsl_spline_init\<close> fills the spline it is given and the
  model returns the filled spline (the status code is ignored by the caller).
  \<open>gsl_spline_eval\<close> takes the spline by pointer to const and the accelerator by plain
  pointer: it returns the value and may update the accelerator.
\<close>

datatype gsl_interp_type =
    gsl_interp_linear
  | gsl_interp_polynomial
  | gsl_interp_cspline
  | gsl_interp_cspline_periodic
  | gsl_interp_akima
  | gsl_interp_akima_periodic

record ('sp, 'acc) externals =
  gsl_interp_accel_alloc :: "'acc"
  gsl_spline_alloc :: "gsl_interp_type \<Rightarrow> nat \<Rightarrow> 'sp"
  gsl_spline_init :: "'sp \<Rightarrow> double list \<Rightarrow> double list \<Rightarrow> nat \<Rightarrow> 'sp"
  gsl_spline_eval :: "'sp \<Rightarrow> double \<Rightarrow> 'acc \<Rightarrow> double \<times> 'acc"
  ostream_double :: "double \<Rightarrow> string"


section \<open>Sorting by a permutation\<close>

text \<open>
  The constructor sorts through two helpers, \<open>generate_sort_permutation\<close> and
  \<open>apply_permutation\<close>. They are declared in include/interpolation.h, which is not
  among the sources at hand, so both are modelled from the spec (section 4.2):
  "stable-sort the (x,y) pairs by x ascending (pairs carried together via a
  permutation, not independently)".
\<close>

text \<open>
  Modelled from the spec: the stable sort inside \<open>generate_sort_permutation\<close>, whose
  body is missing. It is an insertion sort of indices: an index is put in front of the
  first index that does not compare below it, so it stays in front of every later index
  that compares equal.
\<close>

fun insert_index :: "(nat \<Rightarrow> nat \<Rightarrow> bool) \<Rightarrow> nat \<Rightarrow> nat list \<Rightarrow> nat list" where
  "insert_index below i [] = [i]"
| "insert_index below i (j # js) =
     (if below j i then j # insert_index below i js else i # j # js)"

text \<open>
  Modelled from the spec: the loop of that stable sort, also part of the missing body of
  \<open>generate_sort_permutation\<close>.
\<close>

fun stable_sort_indices :: "(nat \<Rightarrow> nat \<Rightarrow> bool) \<Rightarrow> nat list \<Rightarrow> nat list" where
  "stable_sort_indices below [] = []"
| "stable_sort_indices below (i # is) = insert_index below i (stable_sort_indices below is)"

text \<open>
  Modelled from the spec: \<open>generate_sort_permutation\<close> of the missing header
  include/interpolation.h. The permutation is the list of the indices
  \<open>0, ..., size - 1\<close> of the vector, stably sorted by the given comparison of the
  values they point to.
\<close>

definition generate_sort_permutation :: "'a list \<Rightarrow> ('a \<Rightarrow> 'a \<Rightarrow> bool) \<Rightarrow> nat list" where
  "generate_sort_permutation v compare =
     stable_sort_indices (\<lambda>i j. compare (v ! i) (v ! j)) [0..<length v]"

text \<open>
  Modelled from the spec: \<open>apply_permutation\<close> of the missing header
  include/interpolation.h. It reads the vector through the permutation: element \<open>k\<close>
  of the result is element \<open>p[k]\<close> of the vector.
\<close>

definition apply_permutation :: "'a list \<Rightarrow> nat list \<Rightarrow> 'a list" where
  "apply_permutation v p = map (\<lambda>i. v ! i) p"


section \<open>The spline interpolator\<close>

text \<open>
  The members of \<open>InterpolateDataSpline\<close>, written without the underscore that ends
  their names in the source (\<open>first_x_\<close> is \<open>first_x\<close> here, and so on). \<open>acc_\<close> and
  \<open>spline_\<close> are pointers to objects that the interpolator allocates for itself and
  never shares; the record holds the state of the objects they point to.
\<close>

record ('sp, 'acc) InterpolateDataSpline =
  first_x :: double
  last_x :: double
  first_y :: double
  last_y :: double
  acc :: "'acc"
  spline :: "'sp"

text \<open>Every failure of the constructor is a \<open>std::runtime_error\<close> carrying a message.\<close>

datatype error = runtime_error string

text \<open>
  The loop of the constructor over adjacent sorted abscissae, from index \<open>i\<close> on. It is
  reached only with at least three elements, so \<open>size() - 1\<close> does not wrap around.
\<close>

function unique_loop :: "('sp, 'acc) externals \<Rightarrow> double list \<Rightarrow> nat \<Rightarrow> error + unit" where
  "unique_loop E sorted_x i =
     (if i < length sorted_x - 1 then
        (if double_eq (sorted_x ! i) (sorted_x ! (i + 1)) then
           Inl (runtime_error
             (''InterpolateDataSpline: Each x value must be unique. '' @ [CHR 0x22]
               @ ostream_double E (sorted_x ! i) @ [CHR 0x22] @ '' was found twice.''))
         else unique_loop E sorted_x (i + 1))
      else Inr ())"
  by pat_completeness auto
termination
  by (relation "measure (\<lambda>(E, sorted_x, i). length sorted_x - i)") auto

declare unique_loop.simps [simp del]

text \<open>The constructor: \<open>Inl\<close> is the exception thrown, \<open>Inr\<close> the constructed object.\<close>

definition InterpolateDataSpline_ctor ::
    "('sp, 'acc) externals \<Rightarrow> double list \<Rightarrow> double list
      \<Rightarrow> error + ('sp, 'acc) InterpolateDataSpline" where
  "InterpolateDataSpline_ctor E x y =
     (let N = length x in
      if length y \<noteq> N then
        Inl (runtime_error ''Need two vectors of equal length for interpolation.'')
      else if N < 3 then
        Inl (runtime_error ''Need at least 3 data points for cubic spline interpolation.'')
      else
        let p = generate_sort_permutation x double_less;
            sorted_x = apply_permutation x p;
            sorted_y = apply_permutation y p
        in case unique_loop E sorted_x 0 of
             Inl e \<Rightarrow> Inl e
           | Inr _ \<Rightarrow>
               Inr \<lparr>first_x = hd sorted_x,
                    last_x = last sorted_x,
                    first_y = hd sorted_y,
                    last_y = last sorted_y,
                    acc = gsl_interp_accel_alloc E,
                    spline = gsl_spline_init E (gsl_spline_alloc E gsl_interp_cspline N)
                                sorted_x sorted_y N\<rparr>)"

text \<open>
  The spec names the three failures \<open>InvalidInput\<close>, \<open>InsufficientData\<close> and
  \<open>DuplicateAbscissa\<close>. In the code each of them is a \<open>std::runtime_error\<close>, told apart
  by its message; the duplicate message quotes the value as the stream printed it.
\<close>

definition InvalidInput :: error where
  "InvalidInput = runtime_error ''Need two vectors of equal length for interpolation.''"

definition InsufficientData :: error where
  "InsufficientData =
     runtime_error ''Need at least 3 data points for cubic spline interpolation.''"

definition DuplicateAbscissa :: "string \<Rightarrow> error" where
  "DuplicateAbscissa shown =
     runtime_error (''InterpolateDataSpline: Each x value must be unique. '' @ [CHR 0x22]
       @ shown @ [CHR 0x22] @ '' was found twice.'')"

text \<open>
  \<open>InterpolateDataSpline::operator()\<close>, which the spec calls \<open>evaluate\<close>. The method is
  const, so no member changes; the accelerator that \<open>acc_\<close> points to is handed to
  \<open>gsl_spline_eval\<close>, and the object is returned with the accelerator as that call left
  it.
\<close>

definition evaluate ::
    "('sp, 'acc) externals \<Rightarrow> ('sp, 'acc) InterpolateDataSpline \<Rightarrow> double
      \<Rightarrow> double \<times> ('sp, 'acc) InterpolateDataSpline" where
  "evaluate E it xi =
     (if double_less xi (first_x it) then (first_y it, it)
      else if double_greater xi (last_x it) then (last_y it, it)
      else (case gsl_spline_eval E (spline it) xi (acc it) of
              (v, a) \<Rightarrow> (v, it\<lparr>acc := a\<rparr>)))"

text \<open>A sequence of calls on one object, each on the object as the previous call left it.\<close>

fun evaluate_all ::
    "('sp, 'acc) externals \<Rightarrow> ('sp, 'acc) InterpolateDataSpline \<Rightarrow> double list
      \<Rightarrow> double list \<times> ('sp, 'acc) InterpolateDataSpline" where
  "evaluate_all E it [] = ([], it)"
| "evaluate_all E it (xi # xis) =
     (case evaluate E it xi of
        (v, it') \<Rightarrow> (case evaluate_all E it' xis of (vs, it'') \<Rightarrow> (v # vs, it'')))"

text \<open>
  The library's contract for the accelerator: it caches the last lookup and has no
  influence on the value returned.
\<close>

definition accel_transparent :: "('sp, 'acc) externals \<Rightarrow> bool" where
  "accel_transparent E =
     (\<forall>s xi a a'. fst (gsl_spline_eval E s xi a) = fst (gsl_spline_eval E s xi a'))"

text \<open>
  The library's contract for the cubic spline: a spline initialised from at least three
  points with strictly ascending abscissae returns, at each of these abscissae and
  whatever the accelerator holds, the ordinate given for it, up to the tolerance
  \<open>close\<close> of its floating-point arithmetic. The tolerance is a parameter: any
  relation between the value returned and the ordinate given.
\<close>

definition gsl_interpolates :: "('sp, 'acc) externals \<Rightarrow> (double \<Rightarrow> double \<Rightarrow> bool) \<Rightarrow> bool" where
  "gsl_interpolates E close =
     (\<forall>xa ya k a.
        length ya = length xa \<and> 3 \<le> length xa \<and> sorted_wrt double_less xa \<and> k < length xa
        \<longrightarrow> close
              (fst (gsl_spline_eval E
                 (gsl_spline_init E (gsl_spline_alloc E gsl_interp_cspline (length xa))
                    xa ya (length xa))
                 (xa ! k) a))
              (ya ! k))"

text \<open>
  A small stand-in for the external routines, to run the model on concrete inputs: the
  spline keeps the two arrays, evaluation looks up the last sample that is not above
  \<open>xi\<close> and returns its ordinate, and the accelerator remembers the index found. It
  is a step function, not a cubic spline; nothing below depends on it except the worked
  examples.
\<close>

definition step_index :: "double list \<Rightarrow> double \<Rightarrow> nat" where
  "step_index xa xi = length (takeWhile (\<lambda>v. \<not> double_less xi v) xa) - 1"

definition step_externals :: "(double list \<times> double list, nat) externals" where
  "step_externals =
     \<lparr>gsl_interp_accel_alloc = 0,
      gsl_spline_alloc = (\<lambda>T n. ([], [])),
      gsl_spline_init = (\<lambda>s xa ya n. (take n xa, take n ya)),
      gsl_spline_eval = (\<lambda>s xi a.
        (if step_index (fst s) xi < length (snd s) then snd s ! step_index (fst s) xi else xi,
         step_index (fst s) xi)),
      ostream_double = (\<lambda>d. ''<double>'')\<rparr>"


text \<open>
  Three samples for the worked examples: (3, 10), (1, 20) and (2, 30), and the object
  the constructor builds from them with the stand-in routines. The patterns used in the
  examples:
  \<^item> \<open>0x0000000000000000\<close> is 0.0 and \<open>0x8000000000000000\<close> is -0.0;
  \<^item> \<open>0x3FF0000000000000\<close> is 1.0, \<open>0x3FF8000000000000\<close> is 1.5,
    \<open>0x4000000000000000\<close> is 2.0, \<open>0x4004000000000000\<close> is 2.5,
    \<open>0x4008000000000000\<close> is 3.0 and \<open>0x4010000000000000\<close> is 4.0;
  \<^item> \<open>0x4024000000000000\<close> is 10.0, \<open>0x4034000000000000\<close> is 20.0 and
    \<open>0x403E000000000000\<close> is 30.0;
  \<^item> \<open>0x7FF8000000000000\<close> is a quiet NaN.
\<close>

definition sample_x :: "double list" where
  "sample_x = [0x4008000000000000, 0x3FF0000000000000, 0x4000000000000000]"

definition sample_y :: "double list" where
  "sample_y = [0x4024000000000000, 0x4034000000000000, 0x403E000000000000]"

definition sample_interpolator ::
    "(double list \<times> double list, nat) InterpolateDataSpline" where
  "sample_interpolator =
     \<lparr>first_x = 0x3FF0000000000000, last_x = 0x4008000000000000,
      first_y = 0x4034000000000000, last_y = 0x4024000000000000,
      acc = 0,
      spline = ([0x3FF0000000000000, 0x4000000000000000, 0x4008000000000000],
                [0x4034000000000000, 0x403E000000000000, 0x4024000000000000])\<rparr>"


section \<open>The buffers of the ROOT output\<close>

text \<open>
  \<open>RootOutput\<close> declares its buffers as \<open>std::array<double, max_buffer_size_>\<close> and
  \<open>std::array<int, max_buffer_size_>\<close>, with \<open>static const int max_buffer_size_ = 10000\<close>.
  A \<open>std::array\<close> of that size is a sequence whose number of elements is part of its
  type. The record lists the counters and the buffer block of the class, again without
  the underscore that ends some of the names; the members \<open>t\<close>, \<open>x\<close>, \<open>y\<close> and \<open>z\<close>
  carry the suffix \<open>_buffer\<close>. An \<open>int\<close> is a 32-bit word.
\<close>

definition max_buffer_size :: int where
  "max_buffer_size = 10000"

typedef 'a buffer_array = "{xs :: 'a list. int (length xs) = max_buffer_size}"
  by (rule exI [of _ "replicate 10000 undefined"]) (simp add: max_buffer_size_def)

definition array_size :: "'a buffer_array \<Rightarrow> nat" where
  "array_size a = length (Rep_buffer_array a)"

record RootOutput =
  output_counter :: "32 word"
  current_event :: "32 word"
  p0 :: "double buffer_array"
  px :: "double buffer_array"
  py :: "double buffer_array"
  pz :: "double buffer_array"
  t_buffer :: "double buffer_array"
  x_buffer :: "double buffer_array"
  y_buffer :: "double buffer_array"
  z_buffer :: "double buffer_array"
  formation_time :: "double buffer_array"
  xsec_factor :: "double buffer_array"
  time_last_coll :: "double buffer_array"
  pdgcode :: "32 word buffer_array"
  charge :: "32 word buffer_array"
  coll_per_part :: "32 word buffer_array"
  proc_id_origin :: "32 word buffer_array"
  proc_type_origin :: "32 word buffer_array"
  pdg_mother1 :: "32 word buffer_array"
  pdg_mother2 :: "32 word buffer_array"
  npart :: "32 word"
  tcounter :: "32 word"
  ev :: "32 word"
  nin :: "32 word"
  nout :: "32 word"
  wgt :: double
  par_wgt :: double
  impact_b :: double
  empty_event :: bool


section \<open>Facts about the sort\<close>

lemma mset_insert_index: "mset (insert_index below i js) = add_mset i (mset js)"
  by (induction js) auto

lemma mset_stable_sort_indices: "mset (stable_sort_indices below is) = mset is"
  by (induction "is") (auto simp: mset_insert_index)

lemma set_insert_index: "set (insert_index below i js) = insert i (set js)"
  using mset_insert_index [of below i js, THEN arg_cong, of set_mset] by simp

lemma set_stable_sort_indices: "set (stable_sort_indices below is) = set is"
  using mset_stable_sort_indices [of below "is", THEN arg_cong, of set_mset] by simp

text \<open>
  Where the comparison is the order of a key, the sort leaves the indices ordered by key
  first and, among equal keys, by index: ascending and stable in one invariant.
\<close>

lemma key_then_index_insert:
  assumes "\<forall>j\<in>set js. below j i = (k j < k i)"
    and "sorted_wrt (\<lambda>a b. k a < k b \<or> (k a = k b \<and> a < b)) js"
    and "\<forall>j\<in>set js. i < j"
  shows "sorted_wrt (\<lambda>a b. (k a :: int) < k b \<or> (k a = k b \<and> a < b)) (insert_index below i js)"
  using assms
proof (induction js)
  case Nil
  then show ?case by simp
next
  case (Cons j js)
  show ?case
  proof (cases "below j i")
    case True
    with Cons.prems have "k j < k i" by simp
    moreover from Cons have "sorted_wrt (\<lambda>a b. k a < k b \<or> (k a = k b \<and> a < b)) (insert_index below i js)"
      by simp
    ultimately show ?thesis using True Cons.prems by (auto simp: set_insert_index)
  next
    case False
    with Cons.prems have "k i \<le> k j" by simp
    with False Cons.prems show ?thesis by (fastforce)
  qed
qed

lemma key_then_index_sort:
  assumes "\<forall>i\<in>set is. \<forall>j\<in>set is. below i j = (k i < k j)"
    and "sorted_wrt (<) is"
  shows "sorted_wrt (\<lambda>a b. (k a :: int) < k b \<or> (k a = k b \<and> a < b)) (stable_sort_indices below is)"
  using assms
proof (induction "is")
  case Nil
  then show ?case by simp
next
  case (Cons i "is")
  have "sorted_wrt (\<lambda>a b. k a < k b \<or> (k a = k b \<and> a < b)) (stable_sort_indices below is)"
    using Cons by simp
  moreover have "\<forall>j\<in>set (stable_sort_indices below is). below j i = (k j < k i)"
    using Cons.prems(1) by (simp add: set_stable_sort_indices)
  moreover have "\<forall>j\<in>set (stable_sort_indices below is). i < j"
    using Cons.prems(2) by (simp add: set_stable_sort_indices)
  ultimately show ?case
    by (simp add: key_then_index_insert)
qed

lemma permutation_mset:
  "mset (generate_sort_permutation v compare) = mset [0..<length v]"
  by (simp add: generate_sort_permutation_def mset_stable_sort_indices)

lemma permutation_set: "set (generate_sort_permutation v compare) = {0..<length v}"
  using permutation_mset [of v compare, THEN arg_cong, of set_mset] by simp

lemma permutation_length: "length (generate_sort_permutation v compare) = length v"
  using permutation_mset [of v compare, THEN arg_cong, of size] by simp

lemma permutation_distinct: "distinct (generate_sort_permutation v compare)"
  using permutation_mset [of v compare] by (metis distinct_upt mset_eq_imp_distinct_iff)

lemma permutation_nth:
  "a < length v \<Longrightarrow> generate_sort_permutation v compare ! a < length v"
  using permutation_set [of v compare] permutation_length [of v compare]
  by (metis atLeastLessThan_iff nth_mem)

lemma permutation_key_then_index:
  assumes "\<forall>v\<in>set x. \<not> isnan v"
  shows "sorted_wrt (\<lambda>a b. ordinal (x ! a) < ordinal (x ! b)
            \<or> (ordinal (x ! a) = ordinal (x ! b) \<and> a < b))
          (generate_sort_permutation x double_less)"
  unfolding generate_sort_permutation_def
proof (rule key_then_index_sort)
  show "\<forall>i\<in>set [0..<length x]. \<forall>j\<in>set [0..<length x].
          double_less (x ! i) (x ! j) = (ordinal (x ! i) < ordinal (x ! j))"
    using assms by (simp add: double_less_def)
  show "sorted_wrt (<) [0..<length x]"
    by (simp add: sorted_wrt_upt)
qed


section \<open>Facts about the constructor\<close>

text \<open>The three stages of the constructor, one at a time.\<close>

lemma ctor_length_mismatch:
  "length y \<noteq> length x \<Longrightarrow> InterpolateDataSpline_ctor E x y = Inl InvalidInput"
  by (simp add: InterpolateDataSpline_ctor_def InvalidInput_def)

lemma ctor_too_few:
  "length y = length x \<Longrightarrow> length x < 3 \<Longrightarrow> InterpolateDataSpline_ctor E x y = Inl InsufficientData"
  by (simp add: InterpolateDataSpline_ctor_def InsufficientData_def)

lemma ctor_checked:
  "length y = length x \<Longrightarrow> 3 \<le> length x \<Longrightarrow>
   InterpolateDataSpline_ctor E x y =
     (case unique_loop E (apply_permutation x (generate_sort_permutation x double_less)) 0 of
        Inl e \<Rightarrow> Inl e
      | Inr u \<Rightarrow>
          Inr \<lparr>first_x = hd (apply_permutation x (generate_sort_permutation x double_less)),
               last_x = last (apply_permutation x (generate_sort_permutation x double_less)),
               first_y = hd (apply_permutation y (generate_sort_permutation x double_less)),
               last_y = last (apply_permutation y (generate_sort_permutation x double_less)),
               acc = gsl_interp_accel_alloc E,
               spline = gsl_spline_init E (gsl_spline_alloc E gsl_interp_cspline (length x))
                          (apply_permutation x (generate_sort_permutation x double_less))
                          (apply_permutation y (generate_sort_permutation x double_less))
                          (length x)\<rparr>)"
  by (simp add: InterpolateDataSpline_ctor_def Let_def)

lemma errors_distinct:
  "InvalidInput \<noteq> InsufficientData"
  "InvalidInput \<noteq> DuplicateAbscissa s"
  "InsufficientData \<noteq> DuplicateAbscissa s"
  by (simp_all add: InvalidInput_def InsufficientData_def DuplicateAbscissa_def)

lemma unique_loop_Inl:
  "unique_loop E sx i = Inl e \<Longrightarrow>
     \<exists>j. i \<le> j \<and> j + 1 < length sx \<and> double_eq (sx ! j) (sx ! (j + 1))
       \<and> (\<forall>k. i \<le> k \<and> k < j \<longrightarrow> \<not> double_eq (sx ! k) (sx ! (k + 1)))
       \<and> e = DuplicateAbscissa (ostream_double E (sx ! j))"
proof (induction E sx i rule: unique_loop.induct)
  case (1 E sx i)
  show ?case
  proof (cases "i < length sx - 1")
    case False
    with "1.prems" show ?thesis by (simp add: unique_loop.simps [of E sx i])
  next
    case True
    show ?thesis
    proof (cases "double_eq (sx ! i) (sx ! (i + 1))")
      case True
      with \<open>i < length sx - 1\<close> "1.prems" have "e = DuplicateAbscissa (ostream_double E (sx ! i))"
        by (simp add: unique_loop.simps [of E sx i] DuplicateAbscissa_def)
      with True \<open>i < length sx - 1\<close> show ?thesis
        by (intro exI [of _ i]) auto
    next
      case False
      with \<open>i < length sx - 1\<close> "1.prems" have "unique_loop E sx (i + 1) = Inl e"
        by (simp add: unique_loop.simps [of E sx i])
      with "1.IH" [OF \<open>i < length sx - 1\<close> False] obtain j where j:
        "i + 1 \<le> j" "j + 1 < length sx" "double_eq (sx ! j) (sx ! (j + 1))"
        "\<forall>k. i + 1 \<le> k \<and> k < j \<longrightarrow> \<not> double_eq (sx ! k) (sx ! (k + 1))"
        "e = DuplicateAbscissa (ostream_double E (sx ! j))"
        by blast
      have "\<forall>k. i \<le> k \<and> k < j \<longrightarrow> \<not> double_eq (sx ! k) (sx ! (k + 1))"
      proof (intro allI impI)
        fix k assume k: "i \<le> k \<and> k < j"
        show "\<not> double_eq (sx ! k) (sx ! (k + 1))"
        proof (cases "k = i")
          case True with False show ?thesis by simp
        next
          case False with k j(4) show ?thesis by simp
        qed
      qed
      with j show ?thesis by (intro exI [of _ j]) auto
    qed
  qed
qed

lemma unique_loop_Inr:
  "unique_loop E sx i = Inr u \<Longrightarrow> i \<le> j \<Longrightarrow> j + 1 < length sx \<Longrightarrow>
     \<not> double_eq (sx ! j) (sx ! (j + 1))"
proof (induction E sx i rule: unique_loop.induct)
  case (1 E sx i)
  from "1.prems" have lt: "i < length sx - 1" by simp
  from "1.prems"(1) lt have ne: "\<not> double_eq (sx ! i) (sx ! (i + 1))"
    by (auto simp: unique_loop.simps [of E sx i] split: if_splits)
  with "1.prems"(1) lt have rest: "unique_loop E sx (i + 1) = Inr u"
    by (simp add: unique_loop.simps [of E sx i])
  show ?case
  proof (cases "j = i")
    case True with ne show ?thesis by simp
  next
    case False
    with "1.prems" have "i + 1 \<le> j" by simp
    from "1.IH" [OF lt ne rest this "1.prems"(3)] show ?thesis .
  qed
qed

lemma ctor_outcome:
  "(case InterpolateDataSpline_ctor E x y of
      Inl e \<Rightarrow>
        e = InvalidInput \<or> e = InsufficientData \<or> (\<exists>v. e = DuplicateAbscissa (ostream_double E v))
    | Inr it \<Rightarrow>
        it = \<lparr>first_x = hd (apply_permutation x (generate_sort_permutation x double_less)),
              last_x = last (apply_permutation x (generate_sort_permutation x double_less)),
              first_y = hd (apply_permutation y (generate_sort_permutation x double_less)),
              last_y = last (apply_permutation y (generate_sort_permutation x double_less)),
              acc = gsl_interp_accel_alloc E,
              spline = gsl_spline_init E (gsl_spline_alloc E gsl_interp_cspline (length x))
                         (apply_permutation x (generate_sort_permutation x double_less))
                         (apply_permutation y (generate_sort_permutation x double_less))
                         (length x)\<rparr>)"
proof (cases "length y = length x")
  case False
  then show ?thesis by (simp add: ctor_length_mismatch)
next
  case eq: True
  show ?thesis
  proof (cases "length x < 3")
    case True
    with eq show ?thesis by (simp add: ctor_too_few)
  next
    case False
    then have ge: "3 \<le> length x" by simp
    show ?thesis
    proof (cases "unique_loop E (apply_permutation x (generate_sort_permutation x double_less)) 0")
      case (Inl e)
      from unique_loop_Inl [OF Inl] obtain j where
        "e = DuplicateAbscissa (ostream_double E
               (apply_permutation x (generate_sort_permutation x double_less) ! j))"
        by blast
      with Inl eq ge show ?thesis by (auto simp: ctor_checked)
    next
      case (Inr u)
      with eq ge show ?thesis by (simp add: ctor_checked)
    qed
  qed
qed


lemma ctor_Inr_members:
  assumes "InterpolateDataSpline_ctor E x y = Inr it"
  shows "length y = length x" and "3 \<le> length x"
    and "unique_loop E (apply_permutation x (generate_sort_permutation x double_less)) 0 = Inr ()"
    and "it = \<lparr>first_x = hd (apply_permutation x (generate_sort_permutation x double_less)),
               last_x = last (apply_permutation x (generate_sort_permutation x double_less)),
               first_y = hd (apply_permutation y (generate_sort_permutation x double_less)),
               last_y = last (apply_permutation y (generate_sort_permutation x double_less)),
               acc = gsl_interp_accel_alloc E,
               spline = gsl_spline_init E (gsl_spline_alloc E gsl_interp_cspline (length x))
                          (apply_permutation x (generate_sort_permutation x double_less))
                          (apply_permutation y (generate_sort_permutation x double_less))
                          (length x)\<rparr>"
proof -
  show len: "length y = length x"
    using assms ctor_length_mismatch [of y x E] by auto
  show ge: "3 \<le> length x"
    using assms len ctor_too_few [of y x E] by (cases "length x < 3") auto
  from assms len ge
  show "unique_loop E (apply_permutation x (generate_sort_permutation x double_less)) 0 = Inr ()"
    by (simp add: ctor_checked split: sum.splits)
  from assms len ge
  show "it = \<lparr>first_x = hd (apply_permutation x (generate_sort_permutation x double_less)),
               last_x = last (apply_permutation x (generate_sort_permutation x double_less)),
               first_y = hd (apply_permutation y (generate_sort_permutation x double_less)),
               last_y = last (apply_permutation y (generate_sort_permutation x double_less)),
               acc = gsl_interp_accel_alloc E,
               spline = gsl_spline_init E (gsl_spline_alloc E gsl_interp_cspline (length x))
                          (apply_permutation x (generate_sort_permutation x double_less))
                          (apply_permutation y (generate_sort_permutation x double_less))
                          (length x)\<rparr>"
    by (simp add: ctor_checked split: sum.splits)
qed

text \<open>Sorted by key and free of adjacent equal keys means strictly ascending keys.\<close>

lemma strictly_ascending:
  assumes nan: "\<forall>v\<in>set x. \<not> isnan v"
    and uniq: "unique_loop E (apply_permutation x (generate_sort_permutation x double_less)) 0 = Inr u"
    and ab: "a < b" "b < length x"
  shows "ordinal (x ! (generate_sort_permutation x double_less ! a))
           < ordinal (x ! (generate_sort_permutation x double_less ! b))"
proof -
  let ?p = "generate_sort_permutation x double_less"
  let ?ks = "map (\<lambda>i. ordinal (x ! i)) ?p"
  have lenp: "length ?p = length x" by (rule permutation_length)
  have step: "?ks ! j < ?ks ! Suc j" if j: "Suc j < length ?ks" for j
  proof -
    from j lenp have j': "Suc j < length x" by simp
    have "j < Suc j" by simp
    with permutation_key_then_index [OF nan] j' lenp
    have le: "ordinal (x ! (?p ! j)) < ordinal (x ! (?p ! Suc j))
                \<or> (ordinal (x ! (?p ! j)) = ordinal (x ! (?p ! Suc j)) \<and> ?p ! j < ?p ! Suc j)"
      by (simp add: sorted_wrt_iff_nth_less)
    from unique_loop_Inr [OF uniq, of j] j' lenp
    have "\<not> double_eq (x ! (?p ! j)) (x ! (?p ! Suc j))"
      by (simp add: apply_permutation_def)
    moreover have "x ! (?p ! j) \<in> set x" "x ! (?p ! Suc j) \<in> set x"
      using permutation_nth [of j x double_less] permutation_nth [of "Suc j" x double_less] j'
      by simp_all
    ultimately have "ordinal (x ! (?p ! j)) \<noteq> ordinal (x ! (?p ! Suc j))"
      using nan by (simp add: double_eq_def)
    with le j lenp show ?thesis by simp
  qed
  have "sorted_wrt (<) ?ks"
    using step by (simp add: sorted_wrt_iff_nth_Suc_transp)
  with ab lenp have "?ks ! a < ?ks ! b"
    by (simp add: sorted_wrt_iff_nth_less)
  with ab lenp show ?thesis by simp
qed

lemma index_in_permutation:
  assumes "j < length x"
  obtains b where "b < length x" "generate_sort_permutation x compare ! b = j"
proof -
  from assms have "j \<in> set (generate_sort_permutation x compare)"
    by (simp add: permutation_set)
  then obtain b where "b < length (generate_sort_permutation x compare)"
    "generate_sort_permutation x compare ! b = j"
    by (auto simp: in_set_conv_nth)
  with that show ?thesis by (simp add: permutation_length)
qed

lemma ctor_Inr_bounds:
  assumes ok: "InterpolateDataSpline_ctor E x y = Inr it"
    and nan: "\<forall>v\<in>set x. \<not> isnan v"
  shows "\<exists>i k. i < length x \<and> k < length x
           \<and> i = hd (generate_sort_permutation x double_less)
           \<and> k = last (generate_sort_permutation x double_less)
           \<and> first_x it = x ! i \<and> first_y it = y ! i
           \<and> last_x it = x ! k \<and> last_y it = y ! k
           \<and> (\<forall>j<length x. j \<noteq> i \<longrightarrow> ordinal (x ! i) < ordinal (x ! j))
           \<and> (\<forall>j<length x. j \<noteq> k \<longrightarrow> ordinal (x ! j) < ordinal (x ! k))"
proof -
  let ?p = "generate_sort_permutation x double_less"
  note m = ctor_Inr_members [OF ok]
  have lenp: "length ?p = length x" by (rule permutation_length)
  with m(2) have ne: "?p \<noteq> []" by (cases ?p) auto
  have hd0: "hd ?p = ?p ! 0" using ne by (simp add: hd_conv_nth)
  have lastn: "last ?p = ?p ! (length x - 1)" using ne lenp by (simp add: last_conv_nth)
  have pos: "0 < length x" "length x - 1 < length x" using m(2) by arith+
  have i: "hd ?p < length x" using hd0 permutation_nth [OF pos(1), of double_less] by simp
  have k: "last ?p < length x"
    using lastn permutation_nth [OF pos(2), of double_less] by simp
  have fields: "first_x it = x ! hd ?p" "first_y it = y ! hd ?p"
    "last_x it = x ! last ?p" "last_y it = y ! last ?p"
    using m(4) ne by (simp_all add: apply_permutation_def hd_map last_map)
  have low: "ordinal (x ! hd ?p) < ordinal (x ! j)" if j: "j < length x" "j \<noteq> hd ?p" for j
  proof -
    from j(1) obtain b where b: "b < length x" "?p ! b = j" by (rule index_in_permutation)
    with j(2) hd0 have "0 < b" by (cases b) auto
    from strictly_ascending [OF nan m(3) this b(1)] b(2) hd0 show ?thesis by simp
  qed
  have high: "ordinal (x ! j) < ordinal (x ! last ?p)" if j: "j < length x" "j \<noteq> last ?p" for j
  proof -
    from j(1) obtain b where b: "b < length x" "?p ! b = j" by (rule index_in_permutation)
    with j(2) lastn have "b < length x - 1" by (cases "b = length x - 1") auto
    moreover have "length x - 1 < length x" using m(2) by simp
    ultimately show ?thesis
      using strictly_ascending [OF nan m(3), of b "length x - 1"] b(2) lastn by simp
  qed
  from i k fields low high show ?thesis by blast
qed

lemma duplicate_found:
  assumes len: "length y = length x" "3 \<le> length x"
    and dup: "i + 1 < length x"
      "double_eq (apply_permutation x (generate_sort_permutation x double_less) ! i)
                 (apply_permutation x (generate_sort_permutation x double_less) ! (i + 1))"
    and first: "\<forall>j<i. \<not> double_eq
                 (apply_permutation x (generate_sort_permutation x double_less) ! j)
                 (apply_permutation x (generate_sort_permutation x double_less) ! (j + 1))"
  shows "InterpolateDataSpline_ctor E x y =
           Inl (DuplicateAbscissa (ostream_double E
             (apply_permutation x (generate_sort_permutation x double_less) ! i)))"
proof -
  let ?sx = "apply_permutation x (generate_sort_permutation x double_less)"
  have lsx: "length ?sx = length x"
    by (simp add: apply_permutation_def permutation_length)
  show ?thesis
  proof (cases "unique_loop E ?sx 0")
    case (Inr u)
    from unique_loop_Inr [OF Inr, of i] dup lsx show ?thesis by simp
  next
    case (Inl e)
    from unique_loop_Inl [OF Inl] obtain j where j:
      "j + 1 < length ?sx" "double_eq (?sx ! j) (?sx ! (j + 1))"
      "\<forall>k. 0 \<le> k \<and> k < j \<longrightarrow> \<not> double_eq (?sx ! k) (?sx ! (k + 1))"
      "e = DuplicateAbscissa (ostream_double E (?sx ! j))"
      by blast
    have "j = i"
    proof (rule linorder_cases [of j i])
      assume "j < i" with first j(2) show ?thesis by blast
    next
      assume "i < j" with j(3) dup(2) show ?thesis by blast
    qed simp
    with Inl j(4) len show ?thesis by (simp add: ctor_checked)
  qed
qed

text \<open>
  With lengths that pass the first two tests, the duplicate loop decides the outcome.
\<close>

lemma third_check:
  assumes len: "length y = length x" "3 \<le> length x"
  shows "(\<exists>s. InterpolateDataSpline_ctor E x y = Inl (DuplicateAbscissa s)) =
           (\<exists>i. i + 1 < length x
              \<and> double_eq (apply_permutation x (generate_sort_permutation x double_less) ! i)
                  (apply_permutation x (generate_sort_permutation x double_less) ! (i + 1)))"
    and "(\<exists>it. InterpolateDataSpline_ctor E x y = Inr it) =
           (\<forall>i. i + 1 < length x \<longrightarrow>
              \<not> double_eq (apply_permutation x (generate_sort_permutation x double_less) ! i)
                  (apply_permutation x (generate_sort_permutation x double_less) ! (i + 1)))"
proof -
  let ?sx = "apply_permutation x (generate_sort_permutation x double_less)"
  let ?dup = "\<exists>i. i + 1 < length x \<and> double_eq (?sx ! i) (?sx ! (i + 1))"
  have lsx: "length ?sx = length x"
    by (simp add: apply_permutation_def permutation_length)
  have split: "(?dup \<and> (\<exists>s. InterpolateDataSpline_ctor E x y = Inl (DuplicateAbscissa s)))
      \<or> (\<not> ?dup \<and> (\<exists>it. InterpolateDataSpline_ctor E x y = Inr it))"
  proof (cases "unique_loop E ?sx 0")
    case (Inl e)
    from unique_loop_Inl [OF Inl] lsx obtain j where
      "j + 1 < length x" "double_eq (?sx ! j) (?sx ! (j + 1))"
      "e = DuplicateAbscissa (ostream_double E (?sx ! j))"
      by auto
    with Inl len show ?thesis by (auto simp: ctor_checked)
  next
    case (Inr u)
    have "\<not> ?dup"
      using unique_loop_Inr [OF Inr] lsx by auto
    with Inr len show ?thesis by (simp add: ctor_checked)
  qed
  from split show "(\<exists>s. InterpolateDataSpline_ctor E x y = Inl (DuplicateAbscissa s)) = ?dup"
    by auto
  from split show "(\<exists>it. InterpolateDataSpline_ctor E x y = Inr it) =
      (\<forall>i. i + 1 < length x \<longrightarrow> \<not> double_eq (?sx ! i) (?sx ! (i + 1)))"
    by auto
qed

text \<open>Pairwise different abscissae pass the loop, and the sorted abscissae then ascend.\<close>

lemma ctor_succeeds:
  assumes len: "length y = length x" "3 \<le> length x"
    and distinct: "\<forall>i<length x. \<forall>j<length x. i \<noteq> j \<longrightarrow> \<not> double_eq (x ! i) (x ! j)"
  shows "\<exists>it. InterpolateDataSpline_ctor E x y = Inr it"
proof (cases "unique_loop E (apply_permutation x (generate_sort_permutation x double_less)) 0")
  case (Inr u)
  with len show ?thesis by (simp add: ctor_checked)
next
  case (Inl e)
  let ?p = "generate_sort_permutation x double_less"
  have lenp: "length ?p = length x" by (rule permutation_length)
  from unique_loop_Inl [OF Inl] obtain j where j:
    "j + 1 < length (apply_permutation x ?p)"
    "double_eq (apply_permutation x ?p ! j) (apply_permutation x ?p ! (j + 1))"
    by blast
  from j(1) lenp have j': "j < length x" "j + 1 < length x"
    by (simp_all add: apply_permutation_def)
  have "?p ! j \<noteq> ?p ! (j + 1)"
    using permutation_distinct [of x double_less] j' lenp
    by (simp add: nth_eq_iff_index_eq)
  moreover have "?p ! j < length x" "?p ! (j + 1) < length x"
    using j' by (simp_all add: permutation_nth)
  ultimately have "\<not> double_eq (x ! (?p ! j)) (x ! (?p ! (j + 1)))"
    using distinct by blast
  with j(2) j' lenp show ?thesis by (simp add: apply_permutation_def)
qed

lemma sorted_samples_ascend:
  assumes nan: "\<forall>v\<in>set x. \<not> isnan v"
    and uniq: "unique_loop E (apply_permutation x (generate_sort_permutation x double_less)) 0 = Inr u"
  shows "sorted_wrt double_less (apply_permutation x (generate_sort_permutation x double_less))"
proof -
  let ?p = "generate_sort_permutation x double_less"
  have lenp: "length ?p = length x" by (rule permutation_length)
  have "double_less (apply_permutation x ?p ! a) (apply_permutation x ?p ! b)"
    if ab: "a < b" "b < length (apply_permutation x ?p)" for a b
  proof -
    from ab lenp have b: "b < length x" and a: "a < length x"
      by (simp_all add: apply_permutation_def)
    have "x ! (?p ! a) \<in> set x" "x ! (?p ! b) \<in> set x"
      using a b by (simp_all add: permutation_nth)
    with nan have "\<not> isnan (x ! (?p ! a))" "\<not> isnan (x ! (?p ! b))" by blast+
    with strictly_ascending [OF nan uniq ab(1) b] a b lenp show ?thesis
      by (simp add: apply_permutation_def double_less_def)
  qed
  then show ?thesis by (simp add: sorted_wrt_iff_nth_less)
qed

text \<open>The permutation moves the pairs, never one coordinate alone.\<close>

lemma zip_as_indices:
  "length y = length x \<Longrightarrow> zip x y = map (\<lambda>i. (x ! i, y ! i)) [0..<length x]"
  by (rule nth_equalityI) simp_all

lemma pairs_kept_together:
  "zip (apply_permutation x p) (apply_permutation y p) = map (\<lambda>i. (x ! i, y ! i)) p"
  by (induction p) (simp_all add: apply_permutation_def)

lemma pairs_permuted:
  assumes "length y = length x"
  shows "mset (zip (apply_permutation x (generate_sort_permutation x compare))
                   (apply_permutation y (generate_sort_permutation x compare)))
         = mset (zip x y)"
proof -
  have "mset (map (\<lambda>i. (x ! i, y ! i)) (generate_sort_permutation x compare))
          = mset (map (\<lambda>i. (x ! i, y ! i)) [0..<length x])"
    using permutation_mset [of x compare] by (metis mset_map)
  also have "\<dots> = mset (zip x y)"
    using zip_as_indices [OF assms] by simp
  finally show ?thesis
    by (simp only: pairs_kept_together)
qed

lemma sorted_ascending_stable:
  assumes nan: "\<forall>v\<in>set x. \<not> isnan v" and ab: "a < b" "b < length x"
  shows "\<not> double_less (apply_permutation x (generate_sort_permutation x double_less) ! b)
                       (apply_permutation x (generate_sort_permutation x double_less) ! a)"
    and "double_eq (apply_permutation x (generate_sort_permutation x double_less) ! a)
                   (apply_permutation x (generate_sort_permutation x double_less) ! b)
         \<Longrightarrow> generate_sort_permutation x double_less ! a
               < generate_sort_permutation x double_less ! b"
proof -
  let ?p = "generate_sort_permutation x double_less"
  have lenp: "length ?p = length x" by (rule permutation_length)
  from permutation_key_then_index [OF nan] ab lenp
  have r: "ordinal (x ! (?p ! a)) < ordinal (x ! (?p ! b))
             \<or> (ordinal (x ! (?p ! a)) = ordinal (x ! (?p ! b)) \<and> ?p ! a < ?p ! b)"
    by (simp add: sorted_wrt_iff_nth_less)
  from r ab lenp show "\<not> double_less (apply_permutation x ?p ! b) (apply_permutation x ?p ! a)"
    by (auto simp: apply_permutation_def double_less_def)
  assume "double_eq (apply_permutation x ?p ! a) (apply_permutation x ?p ! b)"
  with r ab lenp show "?p ! a < ?p ! b"
    by (auto simp: apply_permutation_def double_eq_def)
qed


section \<open>Facts about evaluation\<close>

text \<open>
  A call changes nothing but the accelerator, and two objects that differ only in the
  accelerator return the same value when the library's lookup is transparent.
\<close>

lemma evaluate_keeps_members:
  "first_x (snd (evaluate E it xi)) = first_x it"
  "last_x (snd (evaluate E it xi)) = last_x it"
  "first_y (snd (evaluate E it xi)) = first_y it"
  "last_y (snd (evaluate E it xi)) = last_y it"
  "spline (snd (evaluate E it xi)) = spline it"
  by (simp_all add: evaluate_def split: prod.splits)

lemma evaluate_all_keeps_members:
  "first_x (snd (evaluate_all E it xis)) = first_x it
   \<and> last_x (snd (evaluate_all E it xis)) = last_x it
   \<and> first_y (snd (evaluate_all E it xis)) = first_y it
   \<and> last_y (snd (evaluate_all E it xis)) = last_y it
   \<and> spline (snd (evaluate_all E it xis)) = spline it"
proof (induction xis arbitrary: it)
  case Nil
  show ?case by simp
next
  case (Cons xi xis)
  have "snd (evaluate_all E it (xi # xis)) = snd (evaluate_all E (snd (evaluate E it xi)) xis)"
    by (simp split: prod.splits)
  with Cons.IH [of "snd (evaluate E it xi)"] show ?case
    by (simp add: evaluate_keeps_members)
qed

lemma evaluate_same_members:
  assumes "accel_transparent E"
    and "first_x it' = first_x it" "last_x it' = last_x it"
    and "first_y it' = first_y it" "last_y it' = last_y it"
    and "spline it' = spline it"
  shows "fst (evaluate E it' xi) = fst (evaluate E it xi)"
proof -
  from assms(1)
  have "fst (gsl_spline_eval E (spline it) xi (acc it'))
          = fst (gsl_spline_eval E (spline it) xi (acc it))"
    unfolding accel_transparent_def by blast
  with assms(2-) show ?thesis
    by (auto simp: evaluate_def split: prod.splits)
qed

lemma evaluate_all_results:
  assumes "accel_transparent E"
  shows "fst (evaluate_all E it xis) = map (\<lambda>xi. fst (evaluate E it xi)) xis"
proof (induction xis arbitrary: it)
  case Nil
  show ?case by simp
next
  case (Cons xi xis)
  let ?it' = "snd (evaluate E it xi)"
  have "fst (evaluate_all E it (xi # xis))
          = fst (evaluate E it xi) # fst (evaluate_all E ?it' xis)"
    by (simp split: prod.splits)
  also have "fst (evaluate_all E ?it' xis) = map (\<lambda>z. fst (evaluate E ?it' z)) xis"
    by (rule Cons.IH)
  also have "\<dots> = map (\<lambda>z. fst (evaluate E it z)) xis"
    using evaluate_same_members [OF assms, of ?it' it]
    by (simp add: evaluate_keeps_members)
  finally show ?case by simp
qed

text \<open>At a sample abscissa the call reaches the spline, at one of its knots.\<close>

lemma evaluate_at_sample:
  assumes contract: "gsl_interpolates E close"
    and ok: "InterpolateDataSpline_ctor E x y = Inr it"
    and nan: "\<forall>v\<in>set x. \<not> isnan v"
    and i: "i < length x"
  shows "close (fst (evaluate E (it\<lparr>acc := a\<rparr>) (x ! i))) (y ! i)"
proof -
  let ?p = "generate_sort_permutation x double_less"
  let ?sx = "apply_permutation x ?p"
  let ?sy = "apply_permutation y ?p"
  note m = ctor_Inr_members [OF ok]
  have lenp: "length ?p = length x" by (rule permutation_length)
  from ctor_Inr_bounds [OF ok nan] obtain lo hi where b:
    "lo < length x" "hi < length x" "first_x it = x ! lo" "last_x it = x ! hi"
    "\<forall>j<length x. j \<noteq> lo \<longrightarrow> ordinal (x ! lo) < ordinal (x ! j)"
    "\<forall>j<length x. j \<noteq> hi \<longrightarrow> ordinal (x ! j) < ordinal (x ! hi)"
    by blast
  have inside: "\<not> double_less (x ! i) (first_x it)" "\<not> double_greater (x ! i) (last_x it)"
    using b i by (cases "i = lo"; cases "i = hi"; force simp: double_less_def double_greater_def)+
  from i obtain k where k: "k < length x" "?p ! k = i" by (rule index_in_permutation)
  have at: "?sx ! k = x ! i" "?sy ! k = y ! i"
    using k lenp by (simp_all add: apply_permutation_def)
  have "length ?sy = length ?sx" "3 \<le> length ?sx" "k < length ?sx" "length ?sx = length x"
    using m(2) k lenp by (simp_all add: apply_permutation_def)
  moreover have "sorted_wrt double_less ?sx"
    using sorted_samples_ascend [OF nan m(3)] .
  ultimately have "close
      (fst (gsl_spline_eval E
         (gsl_spline_init E (gsl_spline_alloc E gsl_interp_cspline (length x)) ?sx ?sy (length x))
         (?sx ! k) a))
      (?sy ! k)"
    using contract unfolding gsl_interpolates_def by metis
  moreover have "spline it =
      gsl_spline_init E (gsl_spline_alloc E gsl_interp_cspline (length x)) ?sx ?sy (length x)"
    using m(4) by simp
  ultimately show ?thesis
    using inside at by (simp add: evaluate_def case_prod_beta)
qed

text \<open>The stand-in routines meet both contracts.\<close>

lemma step_index_at_knot:
  assumes "sorted_wrt double_less xa" "k < length xa"
  shows "step_index xa (xa ! k) = k"
proof -
  have split: "xa = take (Suc k) xa @ drop (Suc k) xa" by simp
  have before: "\<not> double_less (xa ! k) v" if "v \<in> set (take (Suc k) xa)" for v
  proof -
    from that obtain j where j: "j < Suc k" "j < length xa" "v = xa ! j"
      by (auto simp: in_set_conv_nth)
    show ?thesis
    proof (cases "j = k")
      case True with j show ?thesis by (simp add: double_less_def)
    next
      case False
      with j have "j < k" by simp
      with assms have "double_less (xa ! j) (xa ! k)"
        by (simp add: sorted_wrt_iff_nth_less)
      with j show ?thesis by (auto simp: double_less_def)
    qed
  qed
  have after: "takeWhile (\<lambda>v. \<not> double_less (xa ! k) v) (drop (Suc k) xa) = []"
  proof (cases "drop (Suc k) xa")
    case Nil then show ?thesis by simp
  next
    case (Cons w ws)
    then have "Suc k < length xa" by (cases "Suc k < length xa") auto
    with Cons have "w = xa ! Suc k" by (metis nth_via_drop)
    moreover from assms \<open>Suc k < length xa\<close> have "double_less (xa ! k) (xa ! Suc k)"
      by (simp add: sorted_wrt_iff_nth_less)
    ultimately show ?thesis using Cons by simp
  qed
  have "takeWhile (\<lambda>v. \<not> double_less (xa ! k) v) xa = take (Suc k) xa"
    using before after
      takeWhile_append2 [of "take (Suc k) xa" "\<lambda>v. \<not> double_less (xa ! k) v" "drop (Suc k) xa"]
    by simp
  with assms(2) show ?thesis by (simp add: step_index_def)
qed

lemma step_externals_interpolates: "gsl_interpolates step_externals (=)"
  by (simp add: gsl_interpolates_def step_externals_def step_index_at_knot)

lemma step_externals_transparent: "accel_transparent step_externals"
  by (simp add: accel_transparent_def step_externals_def)


section \<open>Facts about the buffers\<close>

text \<open>The size of a buffer is fixed by its type.\<close>

lemma array_size_fixed: "array_size a = 10000"
  using Rep_buffer_array [of a] by (simp add: array_size_def max_buffer_size_def)


section \<open>The worked example\<close>

text \<open>
  The definitions of the comparisons, to be unfolded together, and the constructor run
  on the three samples.
\<close>

lemmas double_eval = double_less_def double_greater_def double_eq_def isnan_def magnitude_def
  ordinal_def signbit_def

lemma sample_permutation: "generate_sort_permutation sample_x double_less = [1, 2, 0]"
  by (simp add: sample_x_def generate_sort_permutation_def upt_rec double_eval)

lemma sample_ctor:
  "InterpolateDataSpline_ctor step_externals sample_x sample_y = Inr sample_interpolator"
  by (simp add: InterpolateDataSpline_ctor_def generate_sort_permutation_def upt_rec
      apply_permutation_def unique_loop.simps sample_x_def sample_y_def
      sample_interpolator_def step_externals_def double_eval)

lemma sample_no_nan: "\<forall>v\<in>set sample_x. \<not> isnan v"
  by (simp add: sample_x_def isnan_def magnitude_def)


section \<open>The claims about construction failures\<close>

text \<open>
  Claim C4. Constructing the interpolator from an x sequence and a y sequence of
  different lengths fails with the InvalidInput error. No partial object comes out of a
  failed construction: whatever the input, the constructor either throws one of its
  three errors, or returns the object with every member set from the sorted samples.
\<close>

theorem length_mismatch_is_InvalidInput:
  "(length x \<noteq> length y \<longrightarrow> InterpolateDataSpline_ctor E x y = Inl InvalidInput)
   \<and> (case InterpolateDataSpline_ctor E x y of
        Inl e \<Rightarrow>
          e = InvalidInput \<or> e = InsufficientData
            \<or> (\<exists>v. e = DuplicateAbscissa (ostream_double E v))
      | Inr it \<Rightarrow>
          it = \<lparr>first_x = hd (apply_permutation x (generate_sort_permutation x double_less)),
                last_x = last (apply_permutation x (generate_sort_permutation x double_less)),
                first_y = hd (apply_permutation y (generate_sort_permutation x double_less)),
                last_y = last (apply_permutation y (generate_sort_permutation x double_less)),
                acc = gsl_interp_accel_alloc E,
                spline = gsl_spline_init E (gsl_spline_alloc E gsl_interp_cspline (length x))
                           (apply_permutation x (generate_sort_permutation x double_less))
                           (apply_permutation y (generate_sort_permutation x double_less))
                           (length x)\<rparr>)"
proof
  show "length x \<noteq> length y \<longrightarrow> InterpolateDataSpline_ctor E x y = Inl InvalidInput"
    using ctor_length_mismatch [of y x E] by auto
  show "case InterpolateDataSpline_ctor E x y of
        Inl e \<Rightarrow>
          e = InvalidInput \<or> e = InsufficientData
            \<or> (\<exists>v. e = DuplicateAbscissa (ostream_double E v))
      | Inr it \<Rightarrow>
          it = \<lparr>first_x = hd (apply_permutation x (generate_sort_permutation x double_less)),
                last_x = last (apply_permutation x (generate_sort_permutation x double_less)),
                first_y = hd (apply_permutation y (generate_sort_permutation x double_less)),
                last_y = last (apply_permutation y (generate_sort_permutation x double_less)),
                acc = gsl_interp_accel_alloc E,
                spline = gsl_spline_init E (gsl_spline_alloc E gsl_interp_cspline (length x))
                           (apply_permutation x (generate_sort_permutation x double_less))
                           (apply_permutation y (generate_sort_permutation x double_less))
                           (length x)\<rparr>"
    by (rule ctor_outcome)
qed

theorem length_mismatch_is_InvalidInput_witness:
  "length [0x3FF0000000000000, 0x4000000000000000 :: double]
     \<noteq> length [0x3FF0000000000000, 0x4000000000000000, 0x4008000000000000 :: double]
   \<and> InterpolateDataSpline_ctor step_externals
        [0x3FF0000000000000, 0x4000000000000000]
        [0x3FF0000000000000, 0x4000000000000000, 0x4008000000000000]
      = Inl InvalidInput"
  using length_mismatch_is_InvalidInput
    [of "[0x3FF0000000000000, 0x4000000000000000]"
        "[0x3FF0000000000000, 0x4000000000000000, 0x4008000000000000]" step_externals]
  by simp

text \<open>
  Claim C5. Constructing the interpolator from two sequences of the same length that
  hold fewer than 3 points fails with the InsufficientData error; in particular every
  construction from exactly 2 points fails this way.
\<close>

theorem fewer_than_three_is_InsufficientData:
  "(length x = length y \<and> length x < 3 \<longrightarrow>
      InterpolateDataSpline_ctor E x y = Inl InsufficientData)
   \<and> InterpolateDataSpline_ctor E [x1, x2] [y1, y2] = Inl InsufficientData"
  by (simp add: ctor_too_few)

theorem fewer_than_three_is_InsufficientData_witness:
  "length [0x3FF0000000000000, 0x4000000000000000 :: double]
     = length [0x4008000000000000, 0x4010000000000000 :: double]
   \<and> length [0x3FF0000000000000, 0x4000000000000000 :: double] < 3
   \<and> InterpolateDataSpline_ctor step_externals
        [0x3FF0000000000000, 0x4000000000000000] [0x4008000000000000, 0x4010000000000000]
      = Inl InsufficientData"
  using fewer_than_three_is_InsufficientData
    [of "[0x3FF0000000000000, 0x4000000000000000]" "[0x4008000000000000, 0x4010000000000000]"
        step_externals]
  by simp

text \<open>
  Claim C2, as amended. Construction fails with the DuplicateAbscissa error exactly when
  the two sequences have the same length of at least 3 and, after sorting by x
  ascending, two adjacent x values compare equal under the \<open>==\<close> of doubles. The
  message names the first such value in sorted order, printed by the stream. In
  particular the samples (1,1), (1,2), (2,3) fail this way, naming 1.

  The comparison is not one of bit patterns: \<open>-0.0\<close> and \<open>0.0\<close> compare equal with
  different bits, and a NaN compares unequal to itself. The closed theorem after the
  witness constructs from x = (-0.0, 0.0, 1.0): the sorted values are pairwise
  different bit patterns, and the construction fails with DuplicateAbscissa.
\<close>

theorem duplicate_iff_adjacent_compare_equal:
  "((\<exists>s. InterpolateDataSpline_ctor E x y = Inl (DuplicateAbscissa s)) \<longleftrightarrow>
      length y = length x \<and> 3 \<le> length x
      \<and> (\<exists>i. i + 1 < length x
            \<and> double_eq (apply_permutation x (generate_sort_permutation x double_less) ! i)
                (apply_permutation x (generate_sort_permutation x double_less) ! (i + 1))))
   \<and> (\<forall>i. length y = length x \<and> 3 \<le> length x \<and> i + 1 < length x
          \<and> double_eq (apply_permutation x (generate_sort_permutation x double_less) ! i)
                (apply_permutation x (generate_sort_permutation x double_less) ! (i + 1))
          \<and> (\<forall>j<i. \<not> double_eq
                (apply_permutation x (generate_sort_permutation x double_less) ! j)
                (apply_permutation x (generate_sort_permutation x double_less) ! (j + 1)))
        \<longrightarrow> InterpolateDataSpline_ctor E x y =
              Inl (DuplicateAbscissa (ostream_double E
                (apply_permutation x (generate_sort_permutation x double_less) ! i))))
   \<and> InterpolateDataSpline_ctor E
        [0x3FF0000000000000, 0x3FF0000000000000, 0x4000000000000000]
        [0x3FF0000000000000, 0x4000000000000000, 0x4008000000000000]
      = Inl (DuplicateAbscissa (ostream_double E 0x3FF0000000000000))"
proof -
  let ?sx = "apply_permutation x (generate_sort_permutation x double_less)"
  have lsx: "length ?sx = length x"
    by (simp add: apply_permutation_def permutation_length)
  have only_if: "length y = length x \<and> 3 \<le> length x
      \<and> (\<exists>i. i + 1 < length x \<and> double_eq (?sx ! i) (?sx ! (i + 1)))"
    if s: "InterpolateDataSpline_ctor E x y = Inl (DuplicateAbscissa s)" for s
  proof -
    have len: "length y = length x"
      using s ctor_length_mismatch [of y x E] errors_distinct(2) [of s] by auto
    have ge: "3 \<le> length x"
      using s len ctor_too_few [of y x E] errors_distinct(3) [of s]
      by (cases "length x < 3") auto
    from s len ge have "unique_loop E ?sx 0 = Inl (DuplicateAbscissa s)"
      by (simp add: ctor_checked split: sum.splits)
    from unique_loop_Inl [OF this] lsx
    have "\<exists>i. i + 1 < length x \<and> double_eq (?sx ! i) (?sx ! (i + 1))"
      by auto
    with len ge show ?thesis by simp
  qed
  have "if": "\<exists>s. InterpolateDataSpline_ctor E x y = Inl (DuplicateAbscissa s)"
    if len: "length y = length x" "3 \<le> length x"
      and i: "i + 1 < length x" "double_eq (?sx ! i) (?sx ! (i + 1))" for i
  proof -
    have "\<exists>e. unique_loop E ?sx 0 = Inl e"
    proof (cases "unique_loop E ?sx 0")
      case (Inr u)
      from unique_loop_Inr [OF Inr, of i] i lsx show ?thesis by simp
    qed simp
    then obtain e where e: "unique_loop E ?sx 0 = Inl e" ..
    from unique_loop_Inl [OF e] obtain j where
      "e = DuplicateAbscissa (ostream_double E (?sx ! j))" by blast
    with e len show ?thesis by (auto simp: ctor_checked)
  qed
  have named: "InterpolateDataSpline_ctor E x y =
              Inl (DuplicateAbscissa (ostream_double E (?sx ! i)))"
    if "length y = length x \<and> 3 \<le> length x \<and> i + 1 < length x
          \<and> double_eq (?sx ! i) (?sx ! (i + 1))
          \<and> (\<forall>j<i. \<not> double_eq (?sx ! j) (?sx ! (j + 1)))" for i
    using that duplicate_found [of y x i E] by blast
  have example: "InterpolateDataSpline_ctor E
        [0x3FF0000000000000, 0x3FF0000000000000, 0x4000000000000000]
        [0x3FF0000000000000, 0x4000000000000000, 0x4008000000000000]
      = Inl (DuplicateAbscissa (ostream_double E 0x3FF0000000000000))"
    by (simp add: InterpolateDataSpline_ctor_def generate_sort_permutation_def upt_rec
        apply_permutation_def unique_loop.simps DuplicateAbscissa_def double_eval)
  from only_if "if" named example show ?thesis by blast
qed

theorem duplicate_iff_adjacent_compare_equal_witness:
  "length [0x4000000000000000, 0x3FF0000000000000, 0x3FF0000000000000 :: double]
     = length [0x3FF0000000000000, 0x4000000000000000, 0x4008000000000000 :: double]
   \<and> apply_permutation [0x4000000000000000, 0x3FF0000000000000, 0x3FF0000000000000]
        (generate_sort_permutation
           [0x4000000000000000, 0x3FF0000000000000, 0x3FF0000000000000] double_less)
       = [0x3FF0000000000000, 0x3FF0000000000000, 0x4000000000000000 :: double]
   \<and> double_eq 0x3FF0000000000000 0x3FF0000000000000
   \<and> InterpolateDataSpline_ctor step_externals
        [0x4000000000000000, 0x3FF0000000000000, 0x3FF0000000000000]
        [0x3FF0000000000000, 0x4000000000000000, 0x4008000000000000]
      = Inl (DuplicateAbscissa ''<double>'')"
proof -
  have sx: "apply_permutation [0x4000000000000000, 0x3FF0000000000000, 0x3FF0000000000000]
        (generate_sort_permutation
           [0x4000000000000000, 0x3FF0000000000000, 0x3FF0000000000000] double_less)
       = [0x3FF0000000000000, 0x3FF0000000000000, 0x4000000000000000 :: double]"
    by (simp add: generate_sort_permutation_def upt_rec apply_permutation_def double_eval)
  have eq: "double_eq 0x3FF0000000000000 0x3FF0000000000000"
    by (simp add: double_eval)
  have "InterpolateDataSpline_ctor step_externals
        [0x4000000000000000, 0x3FF0000000000000, 0x3FF0000000000000]
        [0x3FF0000000000000, 0x4000000000000000, 0x4008000000000000]
      = Inl (DuplicateAbscissa (ostream_double step_externals 0x3FF0000000000000))"
    using duplicate_iff_adjacent_compare_equal
      [of step_externals "[0x4000000000000000, 0x3FF0000000000000, 0x3FF0000000000000]"
        "[0x3FF0000000000000, 0x4000000000000000, 0x4008000000000000]",
        THEN conjunct2, THEN conjunct1, THEN spec, of 0]
    by (simp add: sx eq)
  then show ?thesis using sx eq by (simp add: step_externals_def)
qed

theorem signed_zeros_counterexample:
  "InterpolateDataSpline_ctor step_externals
     [0x8000000000000000, 0, 0x3FF0000000000000]
     [0x3FF0000000000000, 0x4000000000000000, 0x4008000000000000]
   = Inl (DuplicateAbscissa (ostream_double step_externals 0x8000000000000000))
   \<and> apply_permutation [0x8000000000000000, 0, 0x3FF0000000000000]
        (generate_sort_permutation [0x8000000000000000, 0, 0x3FF0000000000000] double_less)
      = [0x8000000000000000, 0, 0x3FF0000000000000 :: double]
   \<and> \<not> (\<exists>i. i + 1 < length [0x8000000000000000, 0, 0x3FF0000000000000 :: double]
             \<and> [0x8000000000000000, 0, 0x3FF0000000000000 :: double] ! i
                 = [0x8000000000000000, 0, 0x3FF0000000000000] ! (i + 1))"
proof (intro conjI)
  show "InterpolateDataSpline_ctor step_externals
     [0x8000000000000000, 0, 0x3FF0000000000000]
     [0x3FF0000000000000, 0x4000000000000000, 0x4008000000000000]
   = Inl (DuplicateAbscissa (ostream_double step_externals 0x8000000000000000))"
    by (simp add: InterpolateDataSpline_ctor_def generate_sort_permutation_def upt_rec
        apply_permutation_def unique_loop.simps DuplicateAbscissa_def double_eval)
  show "apply_permutation [0x8000000000000000, 0, 0x3FF0000000000000]
        (generate_sort_permutation [0x8000000000000000, 0, 0x3FF0000000000000] double_less)
      = [0x8000000000000000, 0, 0x3FF0000000000000 :: double]"
    by (simp add: generate_sort_permutation_def upt_rec apply_permutation_def double_eval)
  show "\<not> (\<exists>i. i + 1 < length [0x8000000000000000, 0, 0x3FF0000000000000 :: double]
             \<and> [0x8000000000000000, 0, 0x3FF0000000000000 :: double] ! i
                 = [0x8000000000000000, 0, 0x3FF0000000000000] ! (i + 1))"
  proof
    assume "\<exists>i. i + 1 < length [0x8000000000000000, 0, 0x3FF0000000000000 :: double]
             \<and> [0x8000000000000000, 0, 0x3FF0000000000000 :: double] ! i
                 = [0x8000000000000000, 0, 0x3FF0000000000000] ! (i + 1)"
    then obtain i where i:
      "i + 1 < length [0x8000000000000000, 0, 0x3FF0000000000000 :: double]"
      "[0x8000000000000000, 0, 0x3FF0000000000000 :: double] ! i
          = [0x8000000000000000, 0, 0x3FF0000000000000] ! (i + 1)"
      by blast
    from i(1) have "i = 0 \<or> i = 1" by auto
    with i(2) show False by auto
  qed
qed

text \<open>
  Claim C10. The checks of the constructor run in a fixed order. Different lengths give
  InvalidInput whatever else is wrong with the input; equal lengths below 3 give
  InsufficientData whatever the values are. Only with equal lengths of at least 3 does
  the third check decide: the outcome is DuplicateAbscissa exactly when two adjacent
  abscissae compare equal after sorting, and an object exactly when none do. The three
  errors are pairwise different, so for x of length 2 (even with two equal values) and
  y of length 3 the error is InvalidInput and neither of the other two.
\<close>

theorem checks_run_in_order:
  "(length y \<noteq> length x \<longrightarrow> InterpolateDataSpline_ctor E x y = Inl InvalidInput)
   \<and> (length y = length x \<and> length x < 3 \<longrightarrow>
        InterpolateDataSpline_ctor E x y = Inl InsufficientData)
   \<and> (length y = length x \<and> 3 \<le> length x \<longrightarrow>
        ((\<exists>it. InterpolateDataSpline_ctor E x y = Inr it)
          \<or> (\<exists>v. InterpolateDataSpline_ctor E x y = Inl (DuplicateAbscissa (ostream_double E v))))
        \<and> ((\<exists>s. InterpolateDataSpline_ctor E x y = Inl (DuplicateAbscissa s)) \<longleftrightarrow>
             (\<exists>i. i + 1 < length x
                \<and> double_eq (apply_permutation x (generate_sort_permutation x double_less) ! i)
                    (apply_permutation x (generate_sort_permutation x double_less) ! (i + 1))))
        \<and> ((\<exists>it. InterpolateDataSpline_ctor E x y = Inr it) \<longleftrightarrow>
             (\<forall>i. i + 1 < length x \<longrightarrow>
                \<not> double_eq (apply_permutation x (generate_sort_permutation x double_less) ! i)
                    (apply_permutation x (generate_sort_permutation x double_less) ! (i + 1)))))
   \<and> InterpolateDataSpline_ctor E [x1, x1] [y1, y2, y3] = Inl InvalidInput
   \<and> InvalidInput \<noteq> InsufficientData
   \<and> (\<forall>s. InvalidInput \<noteq> DuplicateAbscissa s)
   \<and> (\<forall>s. InsufficientData \<noteq> DuplicateAbscissa s)"
proof -
  have third: "((\<exists>it. InterpolateDataSpline_ctor E x y = Inr it)
          \<or> (\<exists>v. InterpolateDataSpline_ctor E x y = Inl (DuplicateAbscissa (ostream_double E v))))
        \<and> ((\<exists>s. InterpolateDataSpline_ctor E x y = Inl (DuplicateAbscissa s)) \<longleftrightarrow>
             (\<exists>i. i + 1 < length x
                \<and> double_eq (apply_permutation x (generate_sort_permutation x double_less) ! i)
                    (apply_permutation x (generate_sort_permutation x double_less) ! (i + 1))))
        \<and> ((\<exists>it. InterpolateDataSpline_ctor E x y = Inr it) \<longleftrightarrow>
             (\<forall>i. i + 1 < length x \<longrightarrow>
                \<not> double_eq (apply_permutation x (generate_sort_permutation x double_less) ! i)
                    (apply_permutation x (generate_sort_permutation x double_less) ! (i + 1))))"
    if len: "length y = length x \<and> 3 \<le> length x"
  proof (intro conjI)
    from len have l: "length y = length x" "3 \<le> length x" by simp_all
    show "(\<exists>it. InterpolateDataSpline_ctor E x y = Inr it)
          \<or> (\<exists>v. InterpolateDataSpline_ctor E x y = Inl (DuplicateAbscissa (ostream_double E v)))"
    proof (cases "unique_loop E (apply_permutation x (generate_sort_permutation x double_less)) 0")
      case (Inl e)
      from unique_loop_Inl [OF Inl] obtain v where "e = DuplicateAbscissa (ostream_double E v)"
        by blast
      with Inl l show ?thesis by (auto simp: ctor_checked)
    next
      case (Inr u)
      with l show ?thesis by (simp add: ctor_checked)
    qed
    show "(\<exists>s. InterpolateDataSpline_ctor E x y = Inl (DuplicateAbscissa s)) \<longleftrightarrow>
             (\<exists>i. i + 1 < length x
                \<and> double_eq (apply_permutation x (generate_sort_permutation x double_less) ! i)
                    (apply_permutation x (generate_sort_permutation x double_less) ! (i + 1)))"
      using l by (rule third_check(1))
    show "(\<exists>it. InterpolateDataSpline_ctor E x y = Inr it) \<longleftrightarrow>
             (\<forall>i. i + 1 < length x \<longrightarrow>
                \<not> double_eq (apply_permutation x (generate_sort_permutation x double_less) ! i)
                    (apply_permutation x (generate_sort_permutation x double_less) ! (i + 1)))"
      using l by (rule third_check(2))
  qed
  have first: "length y \<noteq> length x \<longrightarrow> InterpolateDataSpline_ctor E x y = Inl InvalidInput"
    by (simp add: ctor_length_mismatch)
  have second: "length y = length x \<and> length x < 3 \<longrightarrow>
        InterpolateDataSpline_ctor E x y = Inl InsufficientData"
    by (simp add: ctor_too_few)
  have example: "InterpolateDataSpline_ctor E [x1, x1] [y1, y2, y3] = Inl InvalidInput"
    by (simp add: ctor_length_mismatch)
  from first second third example errors_distinct show ?thesis by blast
qed

theorem checks_run_in_order_witness:
  "length [0x3FF0000000000000, 0x4000000000000000, 0x4008000000000000 :: double]
     \<noteq> length [0x3FF0000000000000, 0x3FF0000000000000 :: double]
   \<and> InterpolateDataSpline_ctor step_externals
        [0x3FF0000000000000, 0x3FF0000000000000]
        [0x3FF0000000000000, 0x4000000000000000, 0x4008000000000000]
      = Inl InvalidInput
   \<and> length [0x3FF0000000000000, 0x4000000000000000 :: double]
       = length [0x3FF0000000000000, 0x3FF0000000000000 :: double]
   \<and> length [0x3FF0000000000000, 0x3FF0000000000000 :: double] < 3
   \<and> InterpolateDataSpline_ctor step_externals
        [0x3FF0000000000000, 0x3FF0000000000000]
        [0x3FF0000000000000, 0x4000000000000000]
      = Inl InsufficientData
   \<and> length sample_y = length sample_x \<and> 3 \<le> length sample_x
   \<and> ((\<exists>it. InterpolateDataSpline_ctor step_externals sample_x sample_y = Inr it)
        \<or> (\<exists>v. InterpolateDataSpline_ctor step_externals sample_x sample_y
                  = Inl (DuplicateAbscissa (ostream_double step_externals v))))
   \<and> apply_permutation [0x4000000000000000, 0x3FF0000000000000, 0x3FF0000000000000]
        (generate_sort_permutation
           [0x4000000000000000, 0x3FF0000000000000, 0x3FF0000000000000] double_less)
       = [0x3FF0000000000000, 0x3FF0000000000000, 0x4000000000000000 :: double]
   \<and> double_eq 0x3FF0000000000000 0x3FF0000000000000
   \<and> (\<exists>s. InterpolateDataSpline_ctor step_externals
             [0x4000000000000000, 0x3FF0000000000000, 0x3FF0000000000000] sample_y
           = Inl (DuplicateAbscissa s))
   \<and> \<not> (\<exists>s. InterpolateDataSpline_ctor step_externals sample_x sample_y
               = Inl (DuplicateAbscissa s))
   \<and> Inl InvalidInput \<noteq> (Inl InsufficientData :: error + unit)"
proof -
  have one: "InterpolateDataSpline_ctor step_externals
        [0x3FF0000000000000, 0x3FF0000000000000]
        [0x3FF0000000000000, 0x4000000000000000, 0x4008000000000000]
      = Inl InvalidInput
      \<and> Inl InvalidInput \<noteq> (Inl InsufficientData :: error + unit)"
    using checks_run_in_order
      [of "[0x3FF0000000000000, 0x4000000000000000, 0x4008000000000000]"
        "[0x3FF0000000000000, 0x3FF0000000000000]" step_externals]
    by simp
  have two: "InterpolateDataSpline_ctor step_externals
        [0x3FF0000000000000, 0x3FF0000000000000]
        [0x3FF0000000000000, 0x4000000000000000]
      = Inl InsufficientData"
    using checks_run_in_order
      [of "[0x3FF0000000000000, 0x4000000000000000]"
        "[0x3FF0000000000000, 0x3FF0000000000000]" step_externals]
    by simp
  have len: "length sample_y = length sample_x \<and> 3 \<le> length sample_x"
    by (simp add: sample_x_def sample_y_def)
  have three: "(\<exists>it. InterpolateDataSpline_ctor step_externals sample_x sample_y = Inr it)
        \<or> (\<exists>v. InterpolateDataSpline_ctor step_externals sample_x sample_y
                  = Inl (DuplicateAbscissa (ostream_double step_externals v)))"
    using checks_run_in_order [of sample_y sample_x step_externals] len by blast
  have accepted: "\<not> (\<exists>s. InterpolateDataSpline_ctor step_externals sample_x sample_y
               = Inl (DuplicateAbscissa s))"
    using sample_ctor by simp
  let ?x2 = "[0x4000000000000000, 0x3FF0000000000000, 0x3FF0000000000000 :: double]"
  have sx2: "apply_permutation ?x2 (generate_sort_permutation ?x2 double_less)
       = [0x3FF0000000000000, 0x3FF0000000000000, 0x4000000000000000]"
    by (simp add: generate_sort_permutation_def upt_rec apply_permutation_def double_eval)
  have eq: "double_eq 0x3FF0000000000000 0x3FF0000000000000"
    by (simp add: double_eval)
  have len2: "length sample_y = length ?x2 \<and> 3 \<le> length ?x2"
    by (simp add: sample_y_def)
  have "\<exists>i. i + 1 < length ?x2
      \<and> double_eq (apply_permutation ?x2 (generate_sort_permutation ?x2 double_less) ! i)
          (apply_permutation ?x2 (generate_sort_permutation ?x2 double_less) ! (i + 1))"
    using eq by (intro exI [of _ 0]) (simp add: sx2)
  with checks_run_in_order [of sample_y ?x2 step_externals] len2
  have rejected: "\<exists>s. InterpolateDataSpline_ctor step_externals ?x2 sample_y
      = Inl (DuplicateAbscissa s)"
    by blast
  from one two len three accepted sx2 eq rejected show ?thesis by simp
qed


section \<open>The claim about the buffers of the ROOT output\<close>

text \<open>
  Claim C8. Every per-field buffer of the writer has the same capacity of exactly 10000
  entries. The capacity is the class constant \<open>max_buffer_size_\<close>, not a member of the
  object, so it is the same in every state \<open>w\<close> the writer can be in.
\<close>

theorem buffers_hold_10000:
  "max_buffer_size = 10000
   \<and> array_size (p0 w) = 10000 \<and> array_size (px w) = 10000
   \<and> array_size (py w) = 10000 \<and> array_size (pz w) = 10000
   \<and> array_size (t_buffer w) = 10000 \<and> array_size (x_buffer w) = 10000
   \<and> array_size (y_buffer w) = 10000 \<and> array_size (z_buffer w) = 10000
   \<and> array_size (formation_time w) = 10000 \<and> array_size (xsec_factor w) = 10000
   \<and> array_size (time_last_coll w) = 10000
   \<and> array_size (pdgcode w) = 10000 \<and> array_size (charge w) = 10000
   \<and> array_size (coll_per_part w) = 10000 \<and> array_size (proc_id_origin w) = 10000
   \<and> array_size (proc_type_origin w) = 10000
   \<and> array_size (pdg_mother1 w) = 10000 \<and> array_size (pdg_mother2 w) = 10000"
  by (simp add: array_size_fixed max_buffer_size_def)


section \<open>The claim about sorting\<close>

text \<open>
  Claim C6. For x values that are numbers, the constructor sorts with one permutation
  \<open>p\<close> of the indices, applied to x and to y alike, so the sorted pairs are the input
  pairs in another order. The sorted x values ascend, and the sort is stable: of two
  positions with equal x the earlier one holds the smaller input index. The spline of a
  constructed interpolator is initialised from exactly these sorted sequences, and its
  stored bounds are the x strictly below every other input x and the x strictly above
  every other, each with the y that came with it.
\<close>

theorem sorted_by_one_permutation:
  "(\<forall>v\<in>set x. \<not> isnan v) \<longrightarrow>
   (let p = generate_sort_permutation x double_less;
        sorted_x = apply_permutation x p;
        sorted_y = apply_permutation y p
    in mset p = mset [0..<length x]
     \<and> zip sorted_x sorted_y = map (\<lambda>i. (x ! i, y ! i)) p
     \<and> (length y = length x \<longrightarrow> mset (zip sorted_x sorted_y) = mset (zip x y))
     \<and> (\<forall>a b. a < b \<and> b < length x \<longrightarrow> \<not> double_less (sorted_x ! b) (sorted_x ! a))
     \<and> (\<forall>a b. a < b \<and> b < length x \<and> double_eq (sorted_x ! a) (sorted_x ! b) \<longrightarrow>
           p ! a < p ! b)
     \<and> (\<forall>it. InterpolateDataSpline_ctor E x y = Inr it \<longrightarrow>
          spline it =
            gsl_spline_init E (gsl_spline_alloc E gsl_interp_cspline (length x))
              sorted_x sorted_y (length x)
          \<and> (\<exists>i k. i < length x \<and> k < length x
               \<and> first_x it = x ! i \<and> first_y it = y ! i
               \<and> last_x it = x ! k \<and> last_y it = y ! k
               \<and> (\<forall>j<length x. j \<noteq> i \<longrightarrow> double_less (x ! i) (x ! j))
               \<and> (\<forall>j<length x. j \<noteq> k \<longrightarrow> double_less (x ! j) (x ! k)))))"
proof
  assume nan: "\<forall>v\<in>set x. \<not> isnan v"
  have built: "spline it =
            gsl_spline_init E (gsl_spline_alloc E gsl_interp_cspline (length x))
              (apply_permutation x (generate_sort_permutation x double_less))
              (apply_permutation y (generate_sort_permutation x double_less)) (length x)
          \<and> (\<exists>i k. i < length x \<and> k < length x
               \<and> first_x it = x ! i \<and> first_y it = y ! i
               \<and> last_x it = x ! k \<and> last_y it = y ! k
               \<and> (\<forall>j<length x. j \<noteq> i \<longrightarrow> double_less (x ! i) (x ! j))
               \<and> (\<forall>j<length x. j \<noteq> k \<longrightarrow> double_less (x ! j) (x ! k)))"
    if ok: "InterpolateDataSpline_ctor E x y = Inr it" for it
  proof
    show "spline it =
            gsl_spline_init E (gsl_spline_alloc E gsl_interp_cspline (length x))
              (apply_permutation x (generate_sort_permutation x double_less))
              (apply_permutation y (generate_sort_permutation x double_less)) (length x)"
      using ctor_Inr_members(4) [OF ok] by simp
    from ctor_Inr_bounds [OF ok nan] obtain i k where ik:
      "i < length x" "k < length x"
      "first_x it = x ! i" "first_y it = y ! i" "last_x it = x ! k" "last_y it = y ! k"
      "\<forall>j<length x. j \<noteq> i \<longrightarrow> ordinal (x ! i) < ordinal (x ! j)"
      "\<forall>j<length x. j \<noteq> k \<longrightarrow> ordinal (x ! j) < ordinal (x ! k)"
      by blast
    have mem: "\<not> isnan (x ! j)" if "j < length x" for j
      using nan that by simp
    have "\<forall>j<length x. j \<noteq> i \<longrightarrow> double_less (x ! i) (x ! j)"
      using ik(1,7) mem by (simp add: double_less_def)
    moreover have "\<forall>j<length x. j \<noteq> k \<longrightarrow> double_less (x ! j) (x ! k)"
      using ik(2,8) mem by (simp add: double_less_def)
    ultimately show "\<exists>i k. i < length x \<and> k < length x
               \<and> first_x it = x ! i \<and> first_y it = y ! i
               \<and> last_x it = x ! k \<and> last_y it = y ! k
               \<and> (\<forall>j<length x. j \<noteq> i \<longrightarrow> double_less (x ! i) (x ! j))
               \<and> (\<forall>j<length x. j \<noteq> k \<longrightarrow> double_less (x ! j) (x ! k))"
      using ik(1-6) by blast
  qed
  show "let p = generate_sort_permutation x double_less;
        sorted_x = apply_permutation x p;
        sorted_y = apply_permutation y p
    in mset p = mset [0..<length x]
     \<and> zip sorted_x sorted_y = map (\<lambda>i. (x ! i, y ! i)) p
     \<and> (length y = length x \<longrightarrow> mset (zip sorted_x sorted_y) = mset (zip x y))
     \<and> (\<forall>a b. a < b \<and> b < length x \<longrightarrow> \<not> double_less (sorted_x ! b) (sorted_x ! a))
     \<and> (\<forall>a b. a < b \<and> b < length x \<and> double_eq (sorted_x ! a) (sorted_x ! b) \<longrightarrow>
           p ! a < p ! b)
     \<and> (\<forall>it. InterpolateDataSpline_ctor E x y = Inr it \<longrightarrow>
          spline it =
            gsl_spline_init E (gsl_spline_alloc E gsl_interp_cspline (length x))
              sorted_x sorted_y (length x)
          \<and> (\<exists>i k. i < length x \<and> k < length x
               \<and> first_x it = x ! i \<and> first_y it = y ! i
               \<and> last_x it = x ! k \<and> last_y it = y ! k
               \<and> (\<forall>j<length x. j \<noteq> i \<longrightarrow> double_less (x ! i) (x ! j))
               \<and> (\<forall>j<length x. j \<noteq> k \<longrightarrow> double_less (x ! j) (x ! k))))"
    unfolding Let_def
  proof (intro conjI allI impI)
    show "mset (generate_sort_permutation x double_less) = mset [0..<length x]"
      by (rule permutation_mset)
    show "zip (apply_permutation x (generate_sort_permutation x double_less))
              (apply_permutation y (generate_sort_permutation x double_less))
          = map (\<lambda>i. (x ! i, y ! i)) (generate_sort_permutation x double_less)"
      by (rule pairs_kept_together)
    show "mset (zip (apply_permutation x (generate_sort_permutation x double_less))
                    (apply_permutation y (generate_sort_permutation x double_less)))
          = mset (zip x y)" if "length y = length x"
      using that by (rule pairs_permuted)
    show "\<not> double_less (apply_permutation x (generate_sort_permutation x double_less) ! b)
                        (apply_permutation x (generate_sort_permutation x double_less) ! a)"
      if "a < b \<and> b < length x" for a b
      using sorted_ascending_stable(1) [OF nan, of a b] that by simp
    show "generate_sort_permutation x double_less ! a
            < generate_sort_permutation x double_less ! b"
      if "a < b \<and> b < length x
          \<and> double_eq (apply_permutation x (generate_sort_permutation x double_less) ! a)
                      (apply_permutation x (generate_sort_permutation x double_less) ! b)"
      for a b
      using sorted_ascending_stable(2) [OF nan, of a b] that by simp
    show "spline it =
            gsl_spline_init E (gsl_spline_alloc E gsl_interp_cspline (length x))
              (apply_permutation x (generate_sort_permutation x double_less))
              (apply_permutation y (generate_sort_permutation x double_less)) (length x)"
      if "InterpolateDataSpline_ctor E x y = Inr it" for it
      using built [OF that] by simp
    show "\<exists>i k. i < length x \<and> k < length x
               \<and> first_x it = x ! i \<and> first_y it = y ! i
               \<and> last_x it = x ! k \<and> last_y it = y ! k
               \<and> (\<forall>j<length x. j \<noteq> i \<longrightarrow> double_less (x ! i) (x ! j))
               \<and> (\<forall>j<length x. j \<noteq> k \<longrightarrow> double_less (x ! j) (x ! k))"
      if "InterpolateDataSpline_ctor E x y = Inr it" for it
      using built [OF that] by simp
  qed
qed

theorem sorted_by_one_permutation_witness:
  "\<not> isnan (sample_x ! 0) \<and> \<not> isnan (sample_x ! 1) \<and> \<not> isnan (sample_x ! 2)
   \<and> generate_sort_permutation sample_x double_less = [1, 2, 0]
   \<and> apply_permutation sample_x [1, 2, 0]
       = [0x3FF0000000000000, 0x4000000000000000, 0x4008000000000000]
   \<and> apply_permutation sample_y [1, 2, 0]
       = [0x4034000000000000, 0x403E000000000000, 0x4024000000000000]
   \<and> mset (zip (apply_permutation sample_x (generate_sort_permutation sample_x double_less))
               (apply_permutation sample_y (generate_sort_permutation sample_x double_less)))
       = mset (zip sample_x sample_y)
   \<and> InterpolateDataSpline_ctor step_externals sample_x sample_y = Inr sample_interpolator
   \<and> (\<exists>i k. i < length sample_x \<and> k < length sample_x
         \<and> first_x sample_interpolator = sample_x ! i
         \<and> first_y sample_interpolator = sample_y ! i
         \<and> last_x sample_interpolator = sample_x ! k
         \<and> last_y sample_interpolator = sample_y ! k
         \<and> (\<forall>j<length sample_x. j \<noteq> i \<longrightarrow> double_less (sample_x ! i) (sample_x ! j))
         \<and> (\<forall>j<length sample_x. j \<noteq> k \<longrightarrow> double_less (sample_x ! j) (sample_x ! k)))
   \<and> first_x sample_interpolator = sample_x ! 1 \<and> first_y sample_interpolator = sample_y ! 1
   \<and> last_x sample_interpolator = sample_x ! 0 \<and> last_y sample_interpolator = sample_y ! 0
   \<and> \<not> isnan 0x4000000000000000 \<and> \<not> isnan 0x3FF0000000000000
   \<and> apply_permutation [0x4000000000000000, 0x3FF0000000000000, 0x4000000000000000]
        (generate_sort_permutation
           [0x4000000000000000, 0x3FF0000000000000, 0x4000000000000000] double_less)
       = [0x3FF0000000000000, 0x4000000000000000, 0x4000000000000000 :: double]
   \<and> double_eq 0x4000000000000000 0x4000000000000000
   \<and> generate_sort_permutation
        [0x4000000000000000, 0x3FF0000000000000, 0x4000000000000000] double_less ! 1
       < generate_sort_permutation
           [0x4000000000000000, 0x3FF0000000000000, 0x4000000000000000] double_less ! 2
   \<and> generate_sort_permutation
        [0x4000000000000000, 0x3FF0000000000000, 0x4000000000000000] double_less = [1, 0, 2]"
proof -
  note T = sorted_by_one_permutation [of sample_x sample_y step_externals, unfolded Let_def]
  have len: "length sample_y = length sample_x"
    by (simp add: sample_x_def sample_y_def)
  from T sample_no_nan len
  have pairs: "mset (zip (apply_permutation sample_x (generate_sort_permutation sample_x double_less))
               (apply_permutation sample_y (generate_sort_permutation sample_x double_less)))
       = mset (zip sample_x sample_y)"
    by blast
  from T sample_no_nan sample_ctor
  have bounds: "\<exists>i k. i < length sample_x \<and> k < length sample_x
         \<and> first_x sample_interpolator = sample_x ! i
         \<and> first_y sample_interpolator = sample_y ! i
         \<and> last_x sample_interpolator = sample_x ! k
         \<and> last_y sample_interpolator = sample_y ! k
         \<and> (\<forall>j<length sample_x. j \<noteq> i \<longrightarrow> double_less (sample_x ! i) (sample_x ! j))
         \<and> (\<forall>j<length sample_x. j \<noteq> k \<longrightarrow> double_less (sample_x ! j) (sample_x ! k))"
    by blast
  have members: "apply_permutation sample_x [1, 2, 0]
       = [0x3FF0000000000000, 0x4000000000000000, 0x4008000000000000]"
    "apply_permutation sample_y [1, 2, 0]
       = [0x4034000000000000, 0x403E000000000000, 0x4024000000000000]"
    "first_x sample_interpolator = sample_x ! 1" "first_y sample_interpolator = sample_y ! 1"
    "last_x sample_interpolator = sample_x ! 0" "last_y sample_interpolator = sample_y ! 0"
    by (simp_all add: apply_permutation_def sample_x_def sample_y_def sample_interpolator_def)
  have numbers: "\<not> isnan (sample_x ! 0) \<and> \<not> isnan (sample_x ! 1) \<and> \<not> isnan (sample_x ! 2)"
    "\<not> isnan 0x4000000000000000 \<and> \<not> isnan 0x3FF0000000000000"
    by (simp_all add: sample_x_def isnan_def magnitude_def)
  let ?x2 = "[0x4000000000000000, 0x3FF0000000000000, 0x4000000000000000 :: double]"
  have p2: "generate_sort_permutation ?x2 double_less = [1, 0, 2]"
    by (simp add: generate_sort_permutation_def upt_rec double_eval)
  have sx2: "apply_permutation ?x2 (generate_sort_permutation ?x2 double_less)
       = [0x3FF0000000000000, 0x4000000000000000, 0x4000000000000000]"
    by (simp add: p2 apply_permutation_def)
  have eq2: "double_eq 0x4000000000000000 0x4000000000000000"
    by (simp add: double_eval)
  have nan2: "\<forall>v\<in>set ?x2. \<not> isnan v"
    by (simp add: isnan_def magnitude_def)
  have "1 < (2 :: nat) \<and> 2 < length ?x2
      \<and> double_eq (apply_permutation ?x2 (generate_sort_permutation ?x2 double_less) ! 1)
           (apply_permutation ?x2 (generate_sort_permutation ?x2 double_less) ! 2)"
    using eq2 by (simp add: sx2)
  with sorted_by_one_permutation [of ?x2 sample_y step_externals, unfolded Let_def] nan2
  have stable: "generate_sort_permutation ?x2 double_less ! 1
       < generate_sort_permutation ?x2 double_less ! 2"
    by blast
  from pairs bounds members numbers sample_permutation sample_ctor p2 sx2 eq2 stable
  show ?thesis by blast
qed


section \<open>The claims about evaluation\<close>

text \<open>
  Claim C1. For every constructed interpolator (built from samples whose x values are
  numbers), there are a sample \<open>i\<close> whose x is strictly below every other sample's x and
  a sample \<open>k\<close> whose x is strictly above every other's, such that for every \<open>xi\<close>:
  if \<open>xi\<close> is strictly below the smallest x, \<open>evaluate\<close> returns the y paired with it
  (a constant, and the object is untouched); if \<open>xi\<close> is strictly above the largest x,
  it returns the y paired with that; for every other \<open>xi\<close> it returns what
  \<open>gsl_spline_eval\<close> returns on the cubic spline initialised from the sorted samples.
\<close>

theorem constant_extrapolation:
  "InterpolateDataSpline_ctor E x y = Inr it \<and> (\<forall>v\<in>set x. \<not> isnan v) \<longrightarrow>
     (\<exists>i k. i < length x \<and> k < length x
        \<and> (\<forall>j<length x. j \<noteq> i \<longrightarrow> double_less (x ! i) (x ! j))
        \<and> (\<forall>j<length x. j \<noteq> k \<longrightarrow> double_less (x ! j) (x ! k))
        \<and> (\<forall>xi. evaluate E it xi =
              (if double_less xi (x ! i) then (y ! i, it)
               else if double_greater xi (x ! k) then (y ! k, it)
               else (case gsl_spline_eval E (spline it) xi (acc it) of
                       (v, a) \<Rightarrow> (v, it\<lparr>acc := a\<rparr>))))
        \<and> spline it =
            gsl_spline_init E (gsl_spline_alloc E gsl_interp_cspline (length x))
              (apply_permutation x (generate_sort_permutation x double_less))
              (apply_permutation y (generate_sort_permutation x double_less)) (length x))"
proof (intro impI, elim conjE)
  assume ok: "InterpolateDataSpline_ctor E x y = Inr it" and nan: "\<forall>v\<in>set x. \<not> isnan v"
  from ctor_Inr_bounds [OF ok nan] obtain i k where ik:
    "i < length x" "k < length x"
    "first_x it = x ! i" "first_y it = y ! i" "last_x it = x ! k" "last_y it = y ! k"
    "\<forall>j<length x. j \<noteq> i \<longrightarrow> ordinal (x ! i) < ordinal (x ! j)"
    "\<forall>j<length x. j \<noteq> k \<longrightarrow> ordinal (x ! j) < ordinal (x ! k)"
    by blast
  have mem: "\<not> isnan (x ! j)" if "j < length x" for j
    using nan that by simp
  have low: "\<forall>j<length x. j \<noteq> i \<longrightarrow> double_less (x ! i) (x ! j)"
    using ik(1,7) mem by (simp add: double_less_def)
  have high: "\<forall>j<length x. j \<noteq> k \<longrightarrow> double_less (x ! j) (x ! k)"
    using ik(2,8) mem by (simp add: double_less_def)
  have ev: "\<forall>xi. evaluate E it xi =
              (if double_less xi (x ! i) then (y ! i, it)
               else if double_greater xi (x ! k) then (y ! k, it)
               else (case gsl_spline_eval E (spline it) xi (acc it) of
                       (v, a) \<Rightarrow> (v, it\<lparr>acc := a\<rparr>)))"
    using ik(3-6) by (simp add: evaluate_def)
  have sp: "spline it =
            gsl_spline_init E (gsl_spline_alloc E gsl_interp_cspline (length x))
              (apply_permutation x (generate_sort_permutation x double_less))
              (apply_permutation y (generate_sort_permutation x double_less)) (length x)"
    using ctor_Inr_members(4) [OF ok] by simp
  from ik(1,2) low high ev sp show "\<exists>i k. i < length x \<and> k < length x
        \<and> (\<forall>j<length x. j \<noteq> i \<longrightarrow> double_less (x ! i) (x ! j))
        \<and> (\<forall>j<length x. j \<noteq> k \<longrightarrow> double_less (x ! j) (x ! k))
        \<and> (\<forall>xi. evaluate E it xi =
              (if double_less xi (x ! i) then (y ! i, it)
               else if double_greater xi (x ! k) then (y ! k, it)
               else (case gsl_spline_eval E (spline it) xi (acc it) of
                       (v, a) \<Rightarrow> (v, it\<lparr>acc := a\<rparr>))))
        \<and> spline it =
            gsl_spline_init E (gsl_spline_alloc E gsl_interp_cspline (length x))
              (apply_permutation x (generate_sort_permutation x double_less))
              (apply_permutation y (generate_sort_permutation x double_less)) (length x)"
    by blast
qed

theorem constant_extrapolation_witness:
  "InterpolateDataSpline_ctor step_externals sample_x sample_y = Inr sample_interpolator
   \<and> \<not> isnan (sample_x ! 0) \<and> \<not> isnan (sample_x ! 1) \<and> \<not> isnan (sample_x ! 2)
   \<and> (\<exists>i k. i < 3 \<and> k < 3
        \<and> (\<forall>j<3. j \<noteq> i \<longrightarrow> double_less (sample_x ! i) (sample_x ! j))
        \<and> (\<forall>j<3. j \<noteq> k \<longrightarrow> double_less (sample_x ! j) (sample_x ! k))
        \<and> (\<forall>xi. evaluate step_externals sample_interpolator xi =
              (if double_less xi (sample_x ! i) then (sample_y ! i, sample_interpolator)
               else if double_greater xi (sample_x ! k) then (sample_y ! k, sample_interpolator)
               else (case gsl_spline_eval step_externals (spline sample_interpolator) xi
                            (acc sample_interpolator) of
                       (v, a) \<Rightarrow> (v, sample_interpolator\<lparr>acc := a\<rparr>)))))
   \<and> evaluate step_externals sample_interpolator 0 = (0x4034000000000000, sample_interpolator)
   \<and> evaluate step_externals sample_interpolator 0x4010000000000000
       = (0x4024000000000000, sample_interpolator)"
proof -
  have len: "length sample_x = 3" by (simp add: sample_x_def)
  from constant_extrapolation [of step_externals sample_x sample_y sample_interpolator]
    sample_ctor sample_no_nan
  have "\<exists>i k. i < 3 \<and> k < 3
        \<and> (\<forall>j<3. j \<noteq> i \<longrightarrow> double_less (sample_x ! i) (sample_x ! j))
        \<and> (\<forall>j<3. j \<noteq> k \<longrightarrow> double_less (sample_x ! j) (sample_x ! k))
        \<and> (\<forall>xi. evaluate step_externals sample_interpolator xi =
              (if double_less xi (sample_x ! i) then (sample_y ! i, sample_interpolator)
               else if double_greater xi (sample_x ! k) then (sample_y ! k, sample_interpolator)
               else (case gsl_spline_eval step_externals (spline sample_interpolator) xi
                            (acc sample_interpolator) of
                       (v, a) \<Rightarrow> (v, sample_interpolator\<lparr>acc := a\<rparr>))))"
    unfolding len by blast
  moreover have "\<not> isnan (sample_x ! 0) \<and> \<not> isnan (sample_x ! 1) \<and> \<not> isnan (sample_x ! 2)"
    by (simp add: sample_x_def isnan_def magnitude_def)
  moreover have "evaluate step_externals sample_interpolator 0
      = (0x4034000000000000, sample_interpolator)"
    by (simp add: evaluate_def sample_interpolator_def double_eval)
  moreover have "evaluate step_externals sample_interpolator 0x4010000000000000
       = (0x4024000000000000, sample_interpolator)"
    by (simp add: evaluate_def sample_interpolator_def double_eval)
  ultimately show ?thesis using sample_ctor by blast
qed

text \<open>
  Claim C3. For every valid input, that is two sequences of the same length with at
  least 3 x values that are numbers and pairwise different, the construction succeeds
  and the interpolant passes through every sample: for every index \<open>i\<close>,
  \<open>evaluate\<close> at \<open>x_i\<close> returns \<open>y_i\<close> within the tolerance, on the object as
  constructed and whatever its accelerator holds later. The value at a sample is
  computed by the library, so the statement is relative to the library's contract for
  the cubic spline, with the tolerance of that contract.
\<close>

theorem passes_through_samples:
  "gsl_interpolates E close
   \<and> length y = length x \<and> 3 \<le> length x
   \<and> (\<forall>v\<in>set x. \<not> isnan v)
   \<and> (\<forall>i<length x. \<forall>j<length x. i \<noteq> j \<longrightarrow> \<not> double_eq (x ! i) (x ! j))
   \<longrightarrow> (\<exists>it. InterpolateDataSpline_ctor E x y = Inr it
          \<and> (\<forall>i<length x. close (fst (evaluate E it (x ! i))) (y ! i))
          \<and> (\<forall>i<length x. \<forall>a. close (fst (evaluate E (it\<lparr>acc := a\<rparr>) (x ! i))) (y ! i)))"
proof (intro impI, elim conjE)
  assume contract: "gsl_interpolates E close"
    and len: "length y = length x" "3 \<le> length x"
    and nan: "\<forall>v\<in>set x. \<not> isnan v"
    and distinct: "\<forall>i<length x. \<forall>j<length x. i \<noteq> j \<longrightarrow> \<not> double_eq (x ! i) (x ! j)"
  from ctor_succeeds [OF len distinct] obtain it where
    ok: "InterpolateDataSpline_ctor E x y = Inr it" ..
  have any: "close (fst (evaluate E (it\<lparr>acc := a\<rparr>) (x ! i))) (y ! i)" if "i < length x" for i a
    using evaluate_at_sample [OF contract ok nan that] .
  have "close (fst (evaluate E it (x ! i))) (y ! i)" if "i < length x" for i
    using any [OF that, of "acc it"] by simp
  with ok any show "\<exists>it. InterpolateDataSpline_ctor E x y = Inr it
          \<and> (\<forall>i<length x. close (fst (evaluate E it (x ! i))) (y ! i))
          \<and> (\<forall>i<length x. \<forall>a. close (fst (evaluate E (it\<lparr>acc := a\<rparr>) (x ! i))) (y ! i))"
    by blast
qed

theorem passes_through_samples_witness:
  "gsl_interpolates step_externals (=)
   \<and> length sample_y = length sample_x \<and> 3 \<le> length sample_x
   \<and> \<not> isnan (sample_x ! 0) \<and> \<not> isnan (sample_x ! 1) \<and> \<not> isnan (sample_x ! 2)
   \<and> \<not> double_eq (sample_x ! 0) (sample_x ! 1) \<and> \<not> double_eq (sample_x ! 0) (sample_x ! 2)
   \<and> \<not> double_eq (sample_x ! 1) (sample_x ! 2)
   \<and> InterpolateDataSpline_ctor step_externals sample_x sample_y = Inr sample_interpolator
   \<and> fst (evaluate step_externals sample_interpolator (sample_x ! 0)) = sample_y ! 0
   \<and> fst (evaluate step_externals sample_interpolator (sample_x ! 1)) = sample_y ! 1
   \<and> fst (evaluate step_externals sample_interpolator (sample_x ! 2)) = sample_y ! 2
   \<and> fst (evaluate step_externals sample_interpolator 0x4000000000000000) = 0x403E000000000000"
proof -
  have len: "length sample_y = length sample_x" "3 \<le> length sample_x" "length sample_x = 3"
    by (simp_all add: sample_x_def sample_y_def)
  have distinct: "\<forall>i<length sample_x. \<forall>j<length sample_x. i \<noteq> j \<longrightarrow>
      \<not> double_eq (sample_x ! i) (sample_x ! j)"
    by (simp add: sample_x_def less_Suc_eq numeral_3_eq_3 double_eval)
  from passes_through_samples [of step_externals "(=)" sample_y sample_x]
    step_externals_interpolates len(1,2) sample_no_nan distinct
  obtain it where it: "InterpolateDataSpline_ctor step_externals sample_x sample_y = Inr it"
    "\<forall>i<length sample_x. fst (evaluate step_externals it (sample_x ! i)) = sample_y ! i"
    by blast
  from it(1) sample_ctor have "it = sample_interpolator" by simp
  with it(2) len(3)
  have through: "fst (evaluate step_externals sample_interpolator (sample_x ! 0)) = sample_y ! 0"
    "fst (evaluate step_externals sample_interpolator (sample_x ! 1)) = sample_y ! 1"
    "fst (evaluate step_externals sample_interpolator (sample_x ! 2)) = sample_y ! 2"
    by simp_all
  have numbers: "\<not> isnan (sample_x ! 0) \<and> \<not> isnan (sample_x ! 1) \<and> \<not> isnan (sample_x ! 2)"
    "\<not> double_eq (sample_x ! 0) (sample_x ! 1) \<and> \<not> double_eq (sample_x ! 0) (sample_x ! 2)
      \<and> \<not> double_eq (sample_x ! 1) (sample_x ! 2)"
    by (simp_all add: sample_x_def double_eval)
  from through(3) have "fst (evaluate step_externals sample_interpolator 0x4000000000000000)
      = 0x403E000000000000"
    by (simp add: sample_x_def sample_y_def)
  with through numbers len(1,2) sample_ctor step_externals_interpolates show ?thesis
    by blast
qed

text \<open>
  Claim C9. The two comparisons are strict. A NaN \<open>xi\<close> fails both and goes to the
  spline, on any object. On a constructed interpolator (x values that are numbers) the
  stored bounds are the smallest and the largest sample x, and an \<open>xi\<close> that compares
  equal to either of them goes to the spline as well instead of returning the stored
  boundary ordinate.
\<close>

theorem boundary_comparisons_are_strict:
  "(isnan xi \<longrightarrow>
      evaluate E it xi =
        (case gsl_spline_eval E (spline it) xi (acc it) of (v, a) \<Rightarrow> (v, it\<lparr>acc := a\<rparr>)))
   \<and> (InterpolateDataSpline_ctor E x y = Inr it \<and> (\<forall>v\<in>set x. \<not> isnan v) \<longrightarrow>
        (\<exists>i k. i < length x \<and> k < length x
           \<and> first_x it = x ! i \<and> last_x it = x ! k
           \<and> (\<forall>j<length x. \<not> double_less (x ! j) (x ! i))
           \<and> (\<forall>j<length x. \<not> double_less (x ! k) (x ! j)))
        \<and> (double_eq xi (first_x it) \<or> double_eq xi (last_x it) \<longrightarrow>
             evaluate E it xi =
               (case gsl_spline_eval E (spline it) xi (acc it) of
                  (v, a) \<Rightarrow> (v, it\<lparr>acc := a\<rparr>))))"
proof (intro conjI impI)
  assume "isnan xi"
  then show "evaluate E it xi =
        (case gsl_spline_eval E (spline it) xi (acc it) of (v, a) \<Rightarrow> (v, it\<lparr>acc := a\<rparr>))"
    by (simp add: evaluate_def double_less_def double_greater_def)
next
  assume "InterpolateDataSpline_ctor E x y = Inr it \<and> (\<forall>v\<in>set x. \<not> isnan v)"
  then have ok: "InterpolateDataSpline_ctor E x y = Inr it" and nan: "\<forall>v\<in>set x. \<not> isnan v"
    by simp_all
  from ctor_Inr_bounds [OF ok nan] obtain i k where ik:
    "i < length x" "k < length x" "first_x it = x ! i" "last_x it = x ! k"
    "\<forall>j<length x. j \<noteq> i \<longrightarrow> ordinal (x ! i) < ordinal (x ! j)"
    "\<forall>j<length x. j \<noteq> k \<longrightarrow> ordinal (x ! j) < ordinal (x ! k)"
    by blast
  have low: "\<not> double_less (x ! j) (x ! i)" if "j < length x" for j
    using ik(5) that by (cases "j = i") (auto simp: double_less_def)
  have high: "\<not> double_less (x ! k) (x ! j)" if "j < length x" for j
    using ik(6) that by (cases "j = k") (auto simp: double_less_def)
  from ik(1-4) low high
  show "\<exists>i k. i < length x \<and> k < length x
           \<and> first_x it = x ! i \<and> last_x it = x ! k
           \<and> (\<forall>j<length x. \<not> double_less (x ! j) (x ! i))
           \<and> (\<forall>j<length x. \<not> double_less (x ! k) (x ! j))"
    by blast
  assume eq: "double_eq xi (first_x it) \<or> double_eq xi (last_x it)"
  have order: "ordinal (first_x it) \<le> ordinal (last_x it)"
    using ik(1-6) by (cases "k = i") (auto simp: less_imp_le)
  have "\<not> double_less xi (first_x it)" "\<not> double_greater xi (last_x it)"
    using eq order by (auto simp: double_eq_def double_less_def double_greater_def)
  then show "evaluate E it xi =
               (case gsl_spline_eval E (spline it) xi (acc it) of
                  (v, a) \<Rightarrow> (v, it\<lparr>acc := a\<rparr>))"
    by (simp add: evaluate_def)
qed

theorem boundary_comparisons_are_strict_witness:
  "isnan 0x7FF8000000000000
   \<and> evaluate step_externals sample_interpolator 0x7FF8000000000000
       = (0x4024000000000000, sample_interpolator\<lparr>acc := 2\<rparr>)
   \<and> InterpolateDataSpline_ctor step_externals sample_x sample_y = Inr sample_interpolator
   \<and> \<not> isnan (sample_x ! 0) \<and> \<not> isnan (sample_x ! 1) \<and> \<not> isnan (sample_x ! 2)
   \<and> double_eq 0x3FF0000000000000 (first_x sample_interpolator)
   \<and> evaluate step_externals sample_interpolator 0x3FF0000000000000
       = (0x4034000000000000, sample_interpolator\<lparr>acc := 0\<rparr>)
   \<and> double_eq 0x4008000000000000 (last_x sample_interpolator)
   \<and> evaluate step_externals sample_interpolator 0x4008000000000000
       = (0x4024000000000000, sample_interpolator\<lparr>acc := 2\<rparr>)"
proof -
  have nan: "isnan 0x7FF8000000000000"
    by (simp add: isnan_def magnitude_def)
  have lo: "double_eq 0x3FF0000000000000 (first_x sample_interpolator)"
    and hi: "double_eq 0x4008000000000000 (last_x sample_interpolator)"
    by (simp_all add: sample_interpolator_def double_eval)
  have sp: "gsl_spline_eval step_externals (spline sample_interpolator) 0x7FF8000000000000
                (acc sample_interpolator) = (0x4024000000000000, 2)"
      "gsl_spline_eval step_externals (spline sample_interpolator) 0x3FF0000000000000
                (acc sample_interpolator) = (0x4034000000000000, 0)"
      "gsl_spline_eval step_externals (spline sample_interpolator) 0x4008000000000000
                (acc sample_interpolator) = (0x4024000000000000, 2)"
    by (simp_all add: step_externals_def step_index_def sample_interpolator_def double_eval)
  have "evaluate step_externals sample_interpolator 0x7FF8000000000000
       = (0x4024000000000000, sample_interpolator\<lparr>acc := 2\<rparr>)"
    using boundary_comparisons_are_strict
      [of "0x7FF8000000000000" step_externals sample_interpolator sample_x sample_y] nan sp(1)
    by simp
  moreover have "evaluate step_externals sample_interpolator 0x3FF0000000000000
       = (0x4034000000000000, sample_interpolator\<lparr>acc := 0\<rparr>)"
    using boundary_comparisons_are_strict
      [of "0x3FF0000000000000" step_externals sample_interpolator sample_x sample_y]
      sample_ctor sample_no_nan lo sp(2)
    by simp
  moreover have "evaluate step_externals sample_interpolator 0x4008000000000000
       = (0x4024000000000000, sample_interpolator\<lparr>acc := 2\<rparr>)"
    using boundary_comparisons_are_strict
      [of "0x4008000000000000" step_externals sample_interpolator sample_x sample_y]
      sample_ctor sample_no_nan hi sp(3)
    by simp
  moreover have "\<not> isnan (sample_x ! 0) \<and> \<not> isnan (sample_x ! 1) \<and> \<not> isnan (sample_x ! 2)"
    by (simp add: sample_x_def isnan_def magnitude_def)
  ultimately show ?thesis using nan lo hi sample_ctor by blast
qed

text \<open>
  Claim C7. No call of \<open>evaluate\<close>, and no sequence of calls, changes the bounds, the
  boundary ordinates or the spline of the object it is called on: only the accelerator
  can change. Given the library's contract that the accelerator does not influence the
  value, every call in a sequence of calls returns what it returns on the object as
  constructed, a call after any sequence of calls does too, and so does a second call
  with the same \<open>xi\<close>.
\<close>

theorem evaluation_is_repeatable:
  "first_x (snd (evaluate_all E it xis)) = first_x it
   \<and> last_x (snd (evaluate_all E it xis)) = last_x it
   \<and> first_y (snd (evaluate_all E it xis)) = first_y it
   \<and> last_y (snd (evaluate_all E it xis)) = last_y it
   \<and> spline (snd (evaluate_all E it xis)) = spline it
   \<and> (accel_transparent E \<longrightarrow>
        fst (evaluate_all E it xis) = map (\<lambda>xi. fst (evaluate E it xi)) xis
        \<and> (\<forall>xi. fst (evaluate E (snd (evaluate_all E it xis)) xi) = fst (evaluate E it xi))
        \<and> (\<forall>xi. fst (evaluate E (snd (evaluate E it xi)) xi) = fst (evaluate E it xi)))"
proof -
  note keeps = evaluate_all_keeps_members [of E it xis]
  have "fst (evaluate E (snd (evaluate_all E it xis)) xi) = fst (evaluate E it xi)"
    if "accel_transparent E" for xi
    using evaluate_same_members [OF that, of "snd (evaluate_all E it xis)" it xi] keeps
    by simp
  moreover have "fst (evaluate E (snd (evaluate E it xi)) xi) = fst (evaluate E it xi)"
    if "accel_transparent E" for xi
    using evaluate_same_members [OF that, of "snd (evaluate E it xi)" it xi]
    by (simp add: evaluate_keeps_members)
  ultimately show ?thesis
    using keeps evaluate_all_results [of E it xis] by blast
qed

theorem evaluation_is_repeatable_witness:
  "accel_transparent step_externals
   \<and> evaluate_all step_externals sample_interpolator
        [0x3FF8000000000000, 0, 0x4004000000000000]
       = ([0x4034000000000000, 0x4034000000000000, 0x403E000000000000],
          sample_interpolator\<lparr>acc := 1\<rparr>)
   \<and> evaluate step_externals sample_interpolator 0x3FF8000000000000
       = (0x4034000000000000, sample_interpolator\<lparr>acc := 0\<rparr>)
   \<and> fst (evaluate step_externals
            (snd (evaluate_all step_externals sample_interpolator
                    [0x3FF8000000000000, 0, 0x4004000000000000]))
            0x3FF8000000000000)
       = 0x4034000000000000
   \<and> fst (evaluate_all step_externals sample_interpolator
            [0x3FF8000000000000, 0, 0x4004000000000000])
       = map (\<lambda>xi. fst (evaluate step_externals sample_interpolator xi))
           [0x3FF8000000000000, 0, 0x4004000000000000]"
proof -
  have one: "evaluate step_externals sample_interpolator 0x3FF8000000000000
       = (0x4034000000000000, sample_interpolator\<lparr>acc := 0\<rparr>)"
    by (simp add: evaluate_def sample_interpolator_def step_externals_def step_index_def
        double_eval)
  have run: "evaluate_all step_externals sample_interpolator
        [0x3FF8000000000000, 0, 0x4004000000000000]
       = ([0x4034000000000000, 0x4034000000000000, 0x403E000000000000],
          sample_interpolator\<lparr>acc := 1\<rparr>)"
    by (simp add: evaluate_def sample_interpolator_def step_externals_def step_index_def
        double_eval)
  from evaluation_is_repeatable
    [of step_externals sample_interpolator "[0x3FF8000000000000, 0, 0x4004000000000000]"]
    step_externals_transparent
  have again: "fst (evaluate step_externals
            (snd (evaluate_all step_externals sample_interpolator
                    [0x3FF8000000000000, 0, 0x4004000000000000]))
            0x3FF8000000000000)
       = fst (evaluate step_externals sample_interpolator 0x3FF8000000000000)"
    and results: "fst (evaluate_all step_externals sample_interpolator
            [0x3FF8000000000000, 0, 0x4004000000000000])
       = map (\<lambda>xi. fst (evaluate step_externals sample_interpolator xi))
           [0x3FF8000000000000, 0, 0x4004000000000000]"
    by blast+
  from again one have "fst (evaluate step_externals
            (snd (evaluate_all step_externals sample_interpolator
                    [0x3FF8000000000000, 0, 0x4004000000000000]))
            0x3FF8000000000000)
       = 0x4034000000000000"
    by simp
  with one run results step_externals_transparent show ?thesis by blast
qed

end
